theory Spec2Isabelle
  imports Main "HOL-Library.Char_ord" "HOL-Library.List_Lexorder"
begin

section \<open>The stack table\<close>

text \<open>
  The portal keeps one record per Access Code in a DynamoDB table
  (\<^verbatim>\<open>amplify/functions/shared/access-code-utils.ts\<close>). The table is modelled as the list
  of its items in the order a Scan returns them. Reads (Scan, GetItem, BatchGetItem) are
  taken to succeed; every write, and every CloudFormation or EventBridge command, may fail,
  as told by an oracle that the operation receives. Timestamps (\<^verbatim>\<open>new Date()\<close>) are
  parameters.
\<close>

text \<open>
  The type of \<^verbatim>\<open>status\<close> in \<^verbatim>\<open>StackRecord\<close> declares seventeen names. The pass of
  \<^verbatim>\<open>stack-sync\<close> stores the \<^verbatim>\<open>StackStatus\<close> that CloudFormation reports through an
  unchecked cast, and the stack deleter reads the status as a string, so a record can hold
  any other name too: \<open>OTHER name\<close> is the status of a name that is none of the seventeen
  (\<^verbatim>\<open>UPDATE_COMPLETE_CLEANUP_IN_PROGRESS\<close>, \<^verbatim>\<open>IMPORT_IN_PROGRESS\<close>, ...).
\<close>

datatype status =
    AVAILABLE
  | CREATE_IN_PROGRESS | CREATE_COMPLETE | CREATE_FAILED
  | DELETE_IN_PROGRESS | DELETE_COMPLETE | DELETE_FAILED
  | ROLLBACK_IN_PROGRESS | ROLLBACK_COMPLETE | ROLLBACK_FAILED
  | UPDATE_IN_PROGRESS | UPDATE_COMPLETE | UPDATE_FAILED
  | UPDATE_ROLLBACK_IN_PROGRESS | UPDATE_ROLLBACK_COMPLETE | UPDATE_ROLLBACK_FAILED
  | REVIEW_IN_PROGRESS
  | OTHER string

record StackOutput =
  outputKey :: string
  outputValue :: string
  description :: "string option"

record StackRecord =
  guid :: string
  stackArn :: "string option"
  stackName :: "string option"
  stackId :: "string option"
  status :: status
  createdAt :: "string option"
  updatedAt :: string
  outputs :: "StackOutput list option"
  lastSyncAt :: "string option"
  syncError :: "string option"

type_synonym table = "StackRecord list"

text \<open>JavaScript truthiness of an optional string: \<^verbatim>\<open>undefined\<close> and \<^verbatim>\<open>''\<close> are falsy.\<close>

definition truthy :: "string option \<Rightarrow> bool" where
  "truthy s = (case s of None \<Rightarrow> False | Some v \<Rightarrow> v \<noteq> [])"

text \<open>
  One key of the \<^verbatim>\<open>updates\<close> object of \<^verbatim>\<open>updateStackRecord\<close>: not mentioned, given a
  value (a SET clause), or given \<^verbatim>\<open>undefined\<close> (a REMOVE clause).
\<close>

datatype 'a upd = Absent | Assign 'a | Undefined

record updates =
  u_stackArn :: "string upd"
  u_stackName :: "string upd"
  u_stackId :: "string upd"
  u_status :: "status option"
  u_createdAt :: "string upd"
  u_outputs :: "StackOutput list upd"
  u_lastSyncAt :: "string upd"
  u_syncError :: "string upd"

definition noUpdates :: updates where
  "noUpdates = \<lparr> u_stackArn = Absent, u_stackName = Absent, u_stackId = Absent,
     u_status = None, u_createdAt = Absent, u_outputs = Absent, u_lastSyncAt = Absent,
     u_syncError = Absent \<rparr>"

definition ofOptional :: "'a option \<Rightarrow> 'a upd" where
  "ofOptional v = (case v of None \<Rightarrow> Undefined | Some x \<Rightarrow> Assign x)"

definition applyField :: "'a upd \<Rightarrow> 'a option \<Rightarrow> 'a option" where
  "applyField u old = (case u of Absent \<Rightarrow> old | Assign v \<Rightarrow> Some v | Undefined \<Rightarrow> None)"

text \<open>The item after the UpdateCommand: the SET and REMOVE clauses, and \<^verbatim>\<open>updatedAt\<close> always.\<close>

definition applyUpdates :: "updates \<Rightarrow> string \<Rightarrow> StackRecord \<Rightarrow> StackRecord" where
  "applyUpdates ups now r = r\<lparr>
     stackArn := applyField (u_stackArn ups) (stackArn r),
     stackName := applyField (u_stackName ups) (stackName r),
     stackId := applyField (u_stackId ups) (stackId r),
     status := (case u_status ups of None \<Rightarrow> status r | Some s \<Rightarrow> s),
     createdAt := applyField (u_createdAt ups) (createdAt r),
     outputs := applyField (u_outputs ups) (outputs r),
     lastSyncAt := applyField (u_lastSyncAt ups) (lastSyncAt r),
     syncError := applyField (u_syncError ups) (syncError r),
     updatedAt := now \<rparr>"

definition getStackRecord :: "string \<Rightarrow> table \<Rightarrow> StackRecord option" where
  "getStackRecord accessCode tbl = find (\<lambda>r. guid r = accessCode) tbl"

text \<open>PutItem replaces the item with the same key, or adds the item.\<close>

definition putStackRecord :: "StackRecord \<Rightarrow> table \<Rightarrow> table" where
  "putStackRecord rec tbl =
     (if guid rec \<in> set (map guid tbl)
      then map (\<lambda>r. if guid r = guid rec then rec else r) tbl
      else tbl @ [rec])"

text \<open>
  UpdateItem on the item with the given key. Every caller passes a key it has read from
  the table in the same invocation, so the item exists; the creation of an item by
  UpdateItem on a missing key is not modelled.
\<close>

definition updateStackRecord :: "string \<Rightarrow> updates \<Rightarrow> string \<Rightarrow> table \<Rightarrow> table" where
  "updateStackRecord accessCode ups now tbl =
     map (\<lambda>r. if guid r = accessCode then applyUpdates ups now r else r) tbl"

definition getAllStackRecords :: "table \<Rightarrow> StackRecord list" where
  "getAllStackRecords tbl = tbl"

definition getAccessCodePool :: "table \<Rightarrow> string list" where
  "getAccessCodePool tbl = map guid (getAllStackRecords tbl)"

definition getAvailableAccessCodes :: "table \<Rightarrow> string list" where
  "getAvailableAccessCodes tbl =
     map guid (filter (\<lambda>record. status record = AVAILABLE) (getAllStackRecords tbl))"

definition getNonAvailableStackRecords :: "table \<Rightarrow> StackRecord list" where
  "getNonAvailableStackRecords tbl =
     filter (\<lambda>record. status record \<noteq> AVAILABLE) (getAllStackRecords tbl)"

text \<open>
  The test of \<^verbatim>\<open>/^[0-9a-f]{8}-[0-9a-f]{4}-[0-9a-f]{4}-[0-9a-f]{4}-[0-9a-f]{12}$/i\<close>:
  groups of hexadecimal digits of the given lengths, separated by hyphens.
\<close>

definition isHexDigit :: "char \<Rightarrow> bool" where
  "isHexDigit c = (c \<in> set ''0123456789abcdefABCDEF'')"

fun matchGroups :: "nat list \<Rightarrow> string \<Rightarrow> bool" where
  "matchGroups [] s = False"
| "matchGroups [n] s = (length s = n \<and> list_all isHexDigit s)"
| "matchGroups (n # ns) s =
     (length (take n s) = n \<and> list_all isHexDigit (take n s)
      \<and> take 1 (drop n s) = ''-'' \<and> matchGroups ns (drop (Suc n) s))"

definition uuidRegex_test :: "string \<Rightarrow> bool" where
  "uuidRegex_test s = matchGroups [8, 4, 4, 4, 12] s"

definition validateAccessCode :: "string \<Rightarrow> table \<Rightarrow> bool" where
  "validateAccessCode accessCode tbl =
     (if accessCode = [] then False
      else if \<not> uuidRegex_test accessCode then False
      else getStackRecord accessCode tbl \<noteq> None)"


section \<open>Errors, external commands and the state\<close>

text \<open>
  An error thrown by the AWS SDK carries a name, a code and a message. A
  \<^verbatim>\<open>LambdaError\<close> carries the HTTP status, the machine-readable code and a details
  object; its human-readable message is left out.
\<close>

datatype sdkError = SdkError (errName: string) (errCode: string) (errMessage: string)

datatype details =
    NoDetails
  | AccessCodeDetail string
  | StackStatusDetail "string option" status
  | OriginalError string string
  | SelectedCount nat nat
  | InvalidAccessCodes "string list"
  | UnavailableAccessCodes "string list" nat
  | Duplicates "string list"
  | RequestedAvailable nat nat nat
  | PoolSize nat
  | BatchCounts nat nat nat string
  | Provided nat
  | ProvidedMaximum nat nat
  | TemplateUrl string
  | RequiredPrefix string string

datatype LambdaError = LambdaError (statusCode: nat) (code: string) (details: details)

datatype ruleState = ENABLED | DISABLED

text \<open>The commands sent to CloudFormation and EventBridge, in the order they are sent.\<close>

datatype call =
    CreateStackCommand string
  | DeleteStackCommand "string option"
  | DescribeStacksCommand string
  | DescribeRuleCommand
  | EnableRuleCommand
  | DisableRuleCommand

record world =
  table :: table
  syncRule :: ruleState
  calls :: "call list"

section \<open>The stack deleter\<close>

text \<open>\<^verbatim>\<open>handleCloudFormationError\<close> of the stack deleter.\<close>

definition handleCloudFormationError :: "sdkError \<Rightarrow> string \<Rightarrow> LambdaError" where
  "handleCloudFormationError error operation =
     (if errName error = ''ValidationException''
        then LambdaError 404 ''STACK_NOT_FOUND'' (OriginalError (errName error) operation)
      else if errName error = ''ThrottlingException'' \<or> errName error = ''Throttling''
        then LambdaError 429 ''CLOUDFORMATION_THROTTLED'' (OriginalError (errName error) operation)
      else if errName error = ''AccessDenied'' \<or> errName error = ''UnauthorizedOperation''
        then LambdaError 403 ''CLOUDFORMATION_ACCESS_DENIED'' (OriginalError (errName error) operation)
      else if errName error = ''ServiceUnavailableException''
        then LambdaError 503 ''CLOUDFORMATION_UNAVAILABLE'' (OriginalError (errName error) operation)
      else if errCode error = ''ENOTFOUND'' \<or> errCode error = ''ECONNREFUSED''
              \<or> errCode error = ''ETIMEDOUT''
        then LambdaError 503 ''CLOUDFORMATION_CONNECTION_ERROR'' (OriginalError (errCode error) operation)
      else LambdaError 500 ''CLOUDFORMATION_ERROR''
             (OriginalError (if errName error \<noteq> [] then errName error else errCode error) operation))"

record ActiveStack =
  s_stackName :: "string option"
  s_stackId :: "string option"
  uniqueId :: string
  s_status :: status
  s_createdAt :: string

definition toActiveStack :: "string \<Rightarrow> StackRecord \<Rightarrow> ActiveStack" where
  "toActiveStack now record =
     \<lparr> s_stackName = stackName record, s_stackId = stackId record, uniqueId = guid record,
       s_status = status record,
       s_createdAt = (case createdAt record of None \<Rightarrow> now
                      | Some c \<Rightarrow> if c \<noteq> [] then c else now) \<rparr>"

definition findStackByAccessCode ::
  "string \<Rightarrow> string \<Rightarrow> table \<Rightarrow> LambdaError + ActiveStack option" where
  "findStackByAccessCode now accessCode tbl =
     (if \<not> validateAccessCode accessCode tbl
      then Inl (LambdaError 400 ''INVALID_ACCESS_CODE'' (AccessCodeDetail accessCode))
      else case getStackRecord accessCode tbl of
             None \<Rightarrow> Inr None
           | Some stackRecord \<Rightarrow>
               if status stackRecord = AVAILABLE \<or> \<not> truthy (stackArn stackRecord)
               then Inr None
               else Inr (Some (toActiveStack now stackRecord)))"

definition inProgressStates :: "status list" where
  "inProgressStates = [CREATE_IN_PROGRESS, ROLLBACK_IN_PROGRESS, UPDATE_IN_PROGRESS,
     UPDATE_ROLLBACK_IN_PROGRESS, REVIEW_IN_PROGRESS]"

record StackDeletionResponse =
  success :: bool
  deletionStatus :: status

text \<open>
  The oracle of a deletion: what DeleteStack answers for a stack name (an error, or
  nothing on success), and whether the UpdateItem of an Access Code throws.
\<close>

record deleteEnv =
  deleteStack :: "string option \<Rightarrow> sdkError option"
  updateThrows :: "string \<Rightarrow> bool"

definition deleteStackByAccessCode ::
  "deleteEnv \<Rightarrow> string \<Rightarrow> string \<Rightarrow> world
     \<Rightarrow> (LambdaError + StackDeletionResponse) \<times> world" where
  "deleteStackByAccessCode env now accessCode w =
     (case findStackByAccessCode now accessCode (table w) of
        Inl e \<Rightarrow> (Inl e, w)
      | Inr None \<Rightarrow>
          (Inl (LambdaError 404 ''STACK_NOT_FOUND'' (AccessCodeDetail accessCode)), w)
      | Inr (Some stack) \<Rightarrow>
          if s_status stack = DELETE_IN_PROGRESS
          then (Inr \<lparr> success = False, deletionStatus = DELETE_IN_PROGRESS \<rparr>, w)
          else if s_status stack \<in> set inProgressStates
          then (Inl (LambdaError 409 ''STACK_OPERATION_IN_PROGRESS''
                       (StackStatusDetail (s_stackName stack) (s_status stack))), w)
          else
            let w1 = w\<lparr> calls := calls w @ [DeleteStackCommand (s_stackName stack)] \<rparr>
            in (case deleteStack env (s_stackName stack) of
                  Some error \<Rightarrow> (Inl (handleCloudFormationError error ''stack deletion''), w1)
                | None \<Rightarrow>
                    (Inr \<lparr> success = True, deletionStatus = DELETE_IN_PROGRESS \<rparr>,
                     if updateThrows env accessCode then w1
                     else w1\<lparr> table := updateStackRecord accessCode
                                  (noUpdates\<lparr> u_status := Some DELETE_IN_PROGRESS \<rparr>) now
                                  (table w1) \<rparr>)))"

definition getAllActiveStacks :: "string \<Rightarrow> table \<Rightarrow> ActiveStack list" where
  "getAllActiveStacks now tbl =
     map (toActiveStack now)
       (filter (\<lambda>record. status record \<noteq> AVAILABLE \<and> truthy (stackArn record))
          (getAllStackRecords tbl))"

text \<open>
  One deletion of \<^verbatim>\<open>deleteAllStacks\<close>. The source starts them all and awaits them
  together; each writes only the item of its own Access Code and its own entry of
  \<^verbatim>\<open>deletionStatuses\<close>, and the model runs them in the order of the list.
\<close>

definition deleteOneOfAll ::
  "deleteEnv \<Rightarrow> string \<Rightarrow> (string \<rightharpoonup> string) \<times> world \<Rightarrow> ActiveStack
     \<Rightarrow> (string \<rightharpoonup> string) \<times> world" where
  "deleteOneOfAll env now acc stack =
     (let deletionStatuses = fst acc; w = snd acc in
      if s_status stack = DELETE_IN_PROGRESS
      then (deletionStatuses(uniqueId stack \<mapsto> ''ALREADY_DELETING''), w)
      else if s_status stack \<in> set inProgressStates
      then (deletionStatuses(uniqueId stack \<mapsto> ''OPERATION_IN_PROGRESS''), w)
      else
        let w1 = w\<lparr> calls := calls w @ [DeleteStackCommand (s_stackName stack)] \<rparr>
        in case deleteStack env (s_stackName stack) of
             Some error \<Rightarrow> (deletionStatuses(uniqueId stack \<mapsto> ''DELETE_FAILED''), w1)
           | None \<Rightarrow>
               (deletionStatuses(uniqueId stack \<mapsto> ''DELETE_INITIATED''),
                if updateThrows env (uniqueId stack) then w1
                else w1\<lparr> table := updateStackRecord (uniqueId stack)
                             (noUpdates\<lparr> u_status := Some DELETE_IN_PROGRESS \<rparr>) now
                             (table w1) \<rparr>))"

record BulkDeletionResponse =
  b_success :: bool
  deletionStatuses :: "string \<rightharpoonup> string"

definition deleteAllStacks ::
  "deleteEnv \<Rightarrow> string \<Rightarrow> world \<Rightarrow> BulkDeletionResponse \<times> world" where
  "deleteAllStacks env now w =
     (let activeStacks = getAllActiveStacks now (table w) in
      if activeStacks = [] then (\<lparr> b_success = True, deletionStatuses = Map.empty \<rparr>, w)
      else let res = foldl (deleteOneOfAll env now) (Map.empty, w) activeStacks
           in (\<lparr> b_success = True, deletionStatuses = fst res \<rparr>, snd res))"

subsection \<open>Deletion status\<close>

definition statusName :: "status \<Rightarrow> string" where
  "statusName s = (case s of
      AVAILABLE \<Rightarrow> ''AVAILABLE''
    | CREATE_IN_PROGRESS \<Rightarrow> ''CREATE_IN_PROGRESS''
    | CREATE_COMPLETE \<Rightarrow> ''CREATE_COMPLETE''
    | CREATE_FAILED \<Rightarrow> ''CREATE_FAILED''
    | DELETE_IN_PROGRESS \<Rightarrow> ''DELETE_IN_PROGRESS''
    | DELETE_COMPLETE \<Rightarrow> ''DELETE_COMPLETE''
    | DELETE_FAILED \<Rightarrow> ''DELETE_FAILED''
    | ROLLBACK_IN_PROGRESS \<Rightarrow> ''ROLLBACK_IN_PROGRESS''
    | ROLLBACK_COMPLETE \<Rightarrow> ''ROLLBACK_COMPLETE''
    | ROLLBACK_FAILED \<Rightarrow> ''ROLLBACK_FAILED''
    | UPDATE_IN_PROGRESS \<Rightarrow> ''UPDATE_IN_PROGRESS''
    | UPDATE_COMPLETE \<Rightarrow> ''UPDATE_COMPLETE''
    | UPDATE_FAILED \<Rightarrow> ''UPDATE_FAILED''
    | UPDATE_ROLLBACK_IN_PROGRESS \<Rightarrow> ''UPDATE_ROLLBACK_IN_PROGRESS''
    | UPDATE_ROLLBACK_COMPLETE \<Rightarrow> ''UPDATE_ROLLBACK_COMPLETE''
    | UPDATE_ROLLBACK_FAILED \<Rightarrow> ''UPDATE_ROLLBACK_FAILED''
    | REVIEW_IN_PROGRESS \<Rightarrow> ''REVIEW_IN_PROGRESS''
    | OTHER name \<Rightarrow> name)"

record DeletionStatusResponse =
  d_status :: status
  progress :: string
  isComplete :: bool

text \<open>The \<^verbatim>\<open>switch\<close> of \<^verbatim>\<open>getDeletionStatus\<close>: the progress message and \<^verbatim>\<open>isComplete\<close>.\<close>

definition deletionSwitch :: "status \<Rightarrow> string \<times> bool" where
  "deletionSwitch s = (case s of
      DELETE_IN_PROGRESS \<Rightarrow>
        (''Stack deletion is in progress. Resources are being removed.'', False)
    | DELETE_COMPLETE \<Rightarrow>
        (''Stack has been successfully deleted and Access Code is now available for reuse.'', True)
    | DELETE_FAILED \<Rightarrow>
        (''Stack deletion failed. Manual intervention may be required. The stack still exists and the Access Code remains linked.'', True)
    | CREATE_IN_PROGRESS \<Rightarrow>
        (''Stack is still being created. Deletion cannot proceed until creation completes.'', False)
    | CREATE_COMPLETE \<Rightarrow> (''Stack is active and ready for deletion if needed.'', False)
    | UPDATE_COMPLETE \<Rightarrow> (''Stack is active and ready for deletion if needed.'', False)
    | CREATE_FAILED \<Rightarrow>
        (''Stack is in error state ('' @ statusName s @ ''). The stack still exists and may require manual cleanup.'', False)
    | ROLLBACK_COMPLETE \<Rightarrow>
        (''Stack is in error state ('' @ statusName s @ ''). The stack still exists and may require manual cleanup.'', False)
    | ROLLBACK_FAILED \<Rightarrow>
        (''Stack is in error state ('' @ statusName s @ ''). The stack still exists and may require manual cleanup.'', False)
    | UPDATE_FAILED \<Rightarrow>
        (''Stack is in error state ('' @ statusName s @ ''). The stack still exists and may require manual cleanup.'', False)
    | UPDATE_ROLLBACK_COMPLETE \<Rightarrow>
        (''Stack is in error state ('' @ statusName s @ ''). The stack still exists and may require manual cleanup.'', False)
    | UPDATE_ROLLBACK_FAILED \<Rightarrow>
        (''Stack is in error state ('' @ statusName s @ ''). The stack still exists and may require manual cleanup.'', False)
    | ROLLBACK_IN_PROGRESS \<Rightarrow>
        (''Stack operation is in progress ('' @ statusName s @ ''). Please wait for the operation to complete before attempting deletion.'', False)
    | UPDATE_IN_PROGRESS \<Rightarrow>
        (''Stack operation is in progress ('' @ statusName s @ ''). Please wait for the operation to complete before attempting deletion.'', False)
    | UPDATE_ROLLBACK_IN_PROGRESS \<Rightarrow>
        (''Stack operation is in progress ('' @ statusName s @ ''). Please wait for the operation to complete before attempting deletion.'', False)
    | REVIEW_IN_PROGRESS \<Rightarrow>
        (''Stack is under review. Please complete the review process before attempting deletion.'', False)
    | _ \<Rightarrow>
        (''Stack is in '' @ statusName s @ '' state. Current status may require manual review.'', False))"

definition getDeletionStatus ::
  "string \<Rightarrow> string \<Rightarrow> table \<Rightarrow> LambdaError + DeletionStatusResponse" where
  "getDeletionStatus now accessCode tbl =
     (case findStackByAccessCode now accessCode tbl of
        Inl e \<Rightarrow> Inl e
      | Inr None \<Rightarrow>
          Inr \<lparr> d_status = DELETE_COMPLETE,
                progress = ''Stack has been successfully deleted and Access Code is now available for reuse.'',
                isComplete = True \<rparr>
      | Inr (Some stack) \<Rightarrow>
          Inr \<lparr> d_status = s_status stack,
                progress = fst (deletionSwitch (s_status stack)),
                isComplete = snd (deletionSwitch (s_status stack)) \<rparr>)"

text \<open>The \<^verbatim>\<open>switch\<close> of \<^verbatim>\<open>getAllDeletionStatus\<close>.\<close>

definition bulkDeletionSwitch :: "status \<Rightarrow> string \<times> bool" where
  "bulkDeletionSwitch s = (case s of
      DELETE_IN_PROGRESS \<Rightarrow>
        (''Stack deletion is in progress. Resources are being removed.'', False)
    | DELETE_COMPLETE \<Rightarrow>
        (''Stack has been successfully deleted and Access Code is now available for reuse.'', True)
    | DELETE_FAILED \<Rightarrow>
        (''Stack deletion failed. Manual intervention may be required.'', True)
    | CREATE_IN_PROGRESS \<Rightarrow> (''Stack is still being created.'', False)
    | CREATE_COMPLETE \<Rightarrow> (''Stack is active.'', False)
    | UPDATE_COMPLETE \<Rightarrow> (''Stack is active.'', False)
    | CREATE_FAILED \<Rightarrow> (''Stack is in error state ('' @ statusName s @ '').'', False)
    | ROLLBACK_COMPLETE \<Rightarrow> (''Stack is in error state ('' @ statusName s @ '').'', False)
    | ROLLBACK_FAILED \<Rightarrow> (''Stack is in error state ('' @ statusName s @ '').'', False)
    | UPDATE_FAILED \<Rightarrow> (''Stack is in error state ('' @ statusName s @ '').'', False)
    | UPDATE_ROLLBACK_COMPLETE \<Rightarrow> (''Stack is in error state ('' @ statusName s @ '').'', False)
    | UPDATE_ROLLBACK_FAILED \<Rightarrow> (''Stack is in error state ('' @ statusName s @ '').'', False)
    | ROLLBACK_IN_PROGRESS \<Rightarrow>
        (''Stack operation is in progress ('' @ statusName s @ '').'', False)
    | UPDATE_IN_PROGRESS \<Rightarrow>
        (''Stack operation is in progress ('' @ statusName s @ '').'', False)
    | UPDATE_ROLLBACK_IN_PROGRESS \<Rightarrow>
        (''Stack operation is in progress ('' @ statusName s @ '').'', False)
    | REVIEW_IN_PROGRESS \<Rightarrow> (''Stack is under review.'', False)
    | _ \<Rightarrow> (''Stack is in '' @ statusName s @ '' state.'', False))"

definition bulkEntry :: "ActiveStack \<Rightarrow> DeletionStatusResponse" where
  "bulkEntry stack =
     \<lparr> d_status = s_status stack,
       progress = fst (bulkDeletionSwitch (s_status stack)),
       isComplete = snd (bulkDeletionSwitch (s_status stack)) \<rparr>"

definition getAllDeletionStatus :: "string \<Rightarrow> table \<Rightarrow> (string \<rightharpoonup> DeletionStatusResponse)" where
  "getAllDeletionStatus now tbl =
     foldl (\<lambda>statuses stack. statuses(uniqueId stack \<mapsto> bulkEntry stack)) Map.empty
       (getAllActiveStacks now tbl)"

section \<open>The EventBridge rule\<close>

text \<open>
  \<^verbatim>\<open>EventBridgeManager\<close> of \<^verbatim>\<open>shared/eventbridge-utils\<close>. The oracle tells which of
  DescribeRule, EnableRule and DisableRule throw. The lookup of the rule's name (ListRules)
  never fails for the caller and is left out of the list of commands.
\<close>

record ruleEnv =
  describeRuleThrows :: bool
  enableRuleThrows :: bool
  disableRuleThrows :: bool

definition checkActiveStackCount :: "world \<Rightarrow> nat" where
  "checkActiveStackCount w = length (getNonAvailableStackRecords (table w))"

text \<open>The three commands return \<open>None\<close>, respectively \<open>False\<close>, when they throw.\<close>

definition getCurrentRuleState :: "ruleEnv \<Rightarrow> world \<Rightarrow> ruleState option \<times> world" where
  "getCurrentRuleState env w =
     (if describeRuleThrows env then None else Some (syncRule w),
      w\<lparr> calls := calls w @ [DescribeRuleCommand] \<rparr>)"

definition enableSyncRule :: "ruleEnv \<Rightarrow> world \<Rightarrow> bool \<times> world" where
  "enableSyncRule env w =
     (let w1 = w\<lparr> calls := calls w @ [EnableRuleCommand] \<rparr>
      in if enableRuleThrows env then (False, w1) else (True, w1\<lparr> syncRule := ENABLED \<rparr>))"

definition disableSyncRule :: "ruleEnv \<Rightarrow> world \<Rightarrow> bool \<times> world" where
  "disableSyncRule env w =
     (let w1 = w\<lparr> calls := calls w @ [DisableRuleCommand] \<rparr>
      in if disableRuleThrows env then (False, w1) else (True, w1\<lparr> syncRule := DISABLED \<rparr>))"

text \<open>Both functions catch every error, so they return the state only.\<close>

definition manageRuleBasedOnStackCount :: "ruleEnv \<Rightarrow> world \<Rightarrow> world" where
  "manageRuleBasedOnStackCount env w =
     (let activeStackCount = checkActiveStackCount w in
      case getCurrentRuleState env w of
        (None, w1) \<Rightarrow> w1
      | (Some currentRuleState, w1) \<Rightarrow>
          let shouldBeEnabled = (activeStackCount > 0);
              isCurrentlyEnabled = (currentRuleState = ENABLED)
          in if shouldBeEnabled \<and> \<not> isCurrentlyEnabled then snd (enableSyncRule env w1)
             else if \<not> shouldBeEnabled \<and> isCurrentlyEnabled then snd (disableSyncRule env w1)
             else w1)"

definition ensureRuleDisabled :: "ruleEnv \<Rightarrow> world \<Rightarrow> world" where
  "ensureRuleDisabled env w =
     (case getCurrentRuleState env w of
        (None, w1) \<Rightarrow> w1
      | (Some currentRuleState, w1) \<Rightarrow>
          if currentRuleState \<noteq> DISABLED then snd (disableSyncRule env w1) else w1)"

section \<open>The stack deployer\<close>

record DeploymentConfig =
  templateUrl :: string
  stackNamePrefix :: "string option"
  accessCodePoolSize :: "nat option"

text \<open>
  \<^verbatim>\<open>validateStackCount\<close> on an integer; a missing or non-integer count belongs to the
  request parser.
\<close>

definition validateStackCount :: "DeploymentConfig \<Rightarrow> int \<Rightarrow> LambdaError option" where
  "validateStackCount config stackCount =
     (if stackCount \<le> 0
      then Some (LambdaError 400 ''INVALID_STACK_COUNT_RANGE'' NoDetails)
      else let maxPoolSize = (case accessCodePoolSize config of
                                None \<Rightarrow> 60 | Some n \<Rightarrow> if n = 0 then 60 else n)
           in if nat stackCount > maxPoolSize
              then Some (LambdaError 400 ''STACK_COUNT_EXCEEDS_POOL''
                           (ProvidedMaximum (nat stackCount) maxPoolSize))
              else None)"

text \<open>
  \<^verbatim>\<open>validateTemplateUrl\<close>; \<open>urlProtocol\<close> stands for \<^verbatim>\<open>new URL(templateUrl).protocol\<close>
  and is \<open>None\<close> where the constructor throws.
\<close>

definition validateTemplateUrl :: "(string \<Rightarrow> string option) \<Rightarrow> string \<Rightarrow> LambdaError option" where
  "validateTemplateUrl urlProtocol url =
     (if url = [] then Some (LambdaError 500 ''TEMPLATE_URL_MISSING'' NoDetails)
      else case urlProtocol url of
             None \<Rightarrow> Some (LambdaError 500 ''TEMPLATE_URL_INVALID'' (TemplateUrl url))
           | Some protocol \<Rightarrow>
               if protocol \<notin> set [''http:'', ''https:'']
               then Some (LambdaError 500 ''TEMPLATE_URL_INVALID'' (TemplateUrl url))
               else None)"

definition getAvailableAccessCodesFromDB :: "table \<Rightarrow> LambdaError + string list" where
  "getAvailableAccessCodesFromDB tbl =
     (let accessCodePool = getAccessCodePool tbl in
      if accessCodePool = []
      then Inl (LambdaError 500 ''ACCESS_CODE_POOL_EMPTY'' (PoolSize 0))
      else Inr (getAvailableAccessCodes tbl))"

text \<open>\<^verbatim>\<open>xs.indexOf(a)\<close> for an element of the list: the first position that holds it.\<close>

definition indexOf :: "'a list \<Rightarrow> 'a \<Rightarrow> nat" where
  "indexOf xs a = length (takeWhile (\<lambda>x. x \<noteq> a) xs)"

definition duplicatesOf :: "'a list \<Rightarrow> 'a list" where
  "duplicatesOf xs =
     map fst (filter (\<lambda>(accessCode, index). indexOf xs accessCode \<noteq> index)
                (zip xs [0..<length xs]))"

definition assignAccessCodes ::
  "nat \<Rightarrow> string list option \<Rightarrow> table \<Rightarrow> LambdaError + string list" where
  "assignAccessCodes count selectedAccessCodes tbl =
     (case getAvailableAccessCodesFromDB tbl of
        Inl e \<Rightarrow> Inl e
      | Inr availableAccessCodes \<Rightarrow>
          (let accessCodePool = getAccessCodePool tbl;
               selected = (case selectedAccessCodes of None \<Rightarrow> [] | Some xs \<Rightarrow> xs)
           in
           if selected \<noteq> [] then
             let invalidAccessCodes = filter (\<lambda>accessCode. accessCode \<notin> set accessCodePool) selected;
                 unavailableAccessCodes =
                   filter (\<lambda>accessCode. accessCode \<notin> set availableAccessCodes) selected;
                 duplicates = duplicatesOf selected
             in
             if length selected \<noteq> count
             then Inl (LambdaError 400 ''ACCESS_CODE_COUNT_MISMATCH''
                         (SelectedCount (length selected) count))
             else if invalidAccessCodes \<noteq> []
             then Inl (LambdaError 400 ''INVALID_ACCESS_CODES'' (InvalidAccessCodes invalidAccessCodes))
             else if unavailableAccessCodes \<noteq> []
             then Inl (LambdaError 409 ''ACCESS_CODES_NOT_AVAILABLE''
                         (UnavailableAccessCodes unavailableAccessCodes (length availableAccessCodes)))
             else if duplicates \<noteq> []
             then Inl (LambdaError 400 ''DUPLICATE_ACCESS_CODES'' (Duplicates duplicates))
             else Inr selected
           else
             if length availableAccessCodes < count
             then Inl (LambdaError 409 ''INSUFFICIENT_ACCESS_CODES''
                         (RequestedAvailable count (length availableAccessCodes)
                            (length accessCodePool)))
             else Inr (take count availableAccessCodes)))"

text \<open>Decimal digits of a number, as a template string prints it.\<close>

function decimal :: "nat \<Rightarrow> string" where
  "decimal n = (if n < 10 then [char_of (48 + n)]
                else decimal (n div 10) @ [char_of (48 + n mod 10)])"
  by pat_completeness auto
termination
  by (relation "measure id") auto

declare decimal.simps [simp del]

definition startsWith :: "string \<Rightarrow> string \<Rightarrow> bool" where
  "startsWith s p = (take (length p) s = p)"

record DeployedStack =
  p_stackName :: string
  p_stackId :: string
  p_uniqueId :: string
  p_status :: status
  p_createdAt :: string

record DeploymentResponse =
  deployedStacks :: "DeployedStack list"
  assignedAccessCodes :: "string list"

text \<open>
  The oracle of a deployment, by the index \<open>i\<close> of the loop: what CreateStack answers (an
  error, or a response with its optional \<^verbatim>\<open>StackId\<close>), whether the PutItem after a
  creation throws, and whether the UpdateItem after a failure throws.
\<close>

record deployEnv =
  urlProtocol :: "string \<Rightarrow> string option"
  createStack :: "nat \<Rightarrow> sdkError + string option"
  putThrows :: "nat \<Rightarrow> bool"
  resetThrows :: "nat \<Rightarrow> bool"
  ruleOracle :: ruleEnv

text \<open>
  The outcome of the \<^verbatim>\<open>try\<close> block around CreateStack: the stack id, or the message
  of the error that the \<^verbatim>\<open>catch\<close> block receives.
\<close>

definition createOutcome :: "sdkError + string option \<Rightarrow> string + string" where
  "createOutcome response =
     (case response of
        Inl error \<Rightarrow> Inl (errMessage error)
      | Inr None \<Rightarrow> Inl ''No stack ID returned from CloudFormation''
      | Inr (Some StackId) \<Rightarrow>
          if StackId \<noteq> [] then Inr StackId
          else Inl ''No stack ID returned from CloudFormation'')"

record deployCounters =
  stacksSoFar :: "DeployedStack list"
  successfulDeployments :: nat
  failedDeployments :: nat

definition stackNameOf :: "string \<Rightarrow> string \<Rightarrow> nat \<Rightarrow> nat \<Rightarrow> string" where
  "stackNameOf stackPrefix accessCode timestamp i =
     stackPrefix @ ''-'' @ accessCode @ ''-'' @ decimal timestamp @ ''-'' @ decimal (i + 1)"

definition resetUpdates :: updates where
  "resetUpdates = noUpdates\<lparr> u_status := Some AVAILABLE, u_stackArn := Undefined,
     u_stackName := Undefined, u_stackId := Undefined, u_createdAt := Undefined \<rparr>"

text \<open>
  One round of the loop of \<^verbatim>\<open>deployStacks\<close>, for the index \<open>i\<close> and the Access
  Code \<^verbatim>\<open>assignedAccessCodes[i]\<close>: the error it throws, if any, the counters and the
  state after it. \<^verbatim>\<open>failedDeployments > stackCount / 2\<close> compares with the exact
  quotient, which is \<open>2 * failedDeployments > stackCount\<close>.
\<close>

definition deployOne ::
  "deployEnv \<Rightarrow> string \<Rightarrow> nat \<Rightarrow> string \<Rightarrow> nat \<Rightarrow> nat \<Rightarrow> string
     \<Rightarrow> deployCounters \<Rightarrow> world \<Rightarrow> LambdaError option \<times> deployCounters \<times> world" where
  "deployOne env stackPrefix timestamp now stackCount i accessCode acc w =
     (let stackName = stackNameOf stackPrefix accessCode timestamp i in
      if \<not> startsWith stackName (stackPrefix @ ''-'')
      then (Some (LambdaError 400 ''INVALID_STACK_NAME_PREFIX''
                    (RequiredPrefix stackName stackPrefix)), acc, w)
      else
        let w1 = w\<lparr> calls := calls w @ [CreateStackCommand stackName] \<rparr> in
        (case createOutcome (createStack env i) of
           Inr StackId \<Rightarrow>
             let acc1 = acc\<lparr> stacksSoFar := stacksSoFar acc @
                          [\<lparr> p_stackName = stackName, p_stackId = StackId,
                             p_uniqueId = accessCode, p_status = CREATE_IN_PROGRESS,
                             p_createdAt = now \<rparr>] \<rparr>;
                 stackRecord = \<lparr> guid = accessCode, stackArn = Some StackId,
                    stackName = Some stackName, stackId = Some StackId,
                    status = CREATE_IN_PROGRESS, createdAt = Some now, updatedAt = now,
                    outputs = None, lastSyncAt = None, syncError = None \<rparr>;
                 w2 = (if putThrows env i then w1
                       else w1\<lparr> table := putStackRecord stackRecord (table w1) \<rparr>);
                 acc2 = acc1\<lparr> successfulDeployments := successfulDeployments acc1 + 1 \<rparr>
             in (None, acc2, w2)
         | Inl errorMessage \<Rightarrow>
             let acc1 = acc\<lparr> failedDeployments := failedDeployments acc + 1 \<rparr>;
                 acc2 = acc1\<lparr> stacksSoFar := stacksSoFar acc1 @
                          [\<lparr> p_stackName = stackName, p_stackId = [],
                             p_uniqueId = accessCode, p_status = CREATE_FAILED,
                             p_createdAt = now \<rparr>] \<rparr>;
                 w2 = (if resetThrows env i then w1
                       else w1\<lparr> table := updateStackRecord accessCode resetUpdates now
                                              (table w1) \<rparr>)
             in if 2 * failedDeployments acc2 > stackCount
                then (Some (LambdaError 500 ''DEPLOYMENT_BATCH_FAILED''
                              (BatchCounts (successfulDeployments acc2) (failedDeployments acc2)
                                 stackCount errorMessage)), acc2, w2)
                else (None, acc2, w2)))"

text \<open>
  The loop. The source runs \<open>i\<close> from 0 to \<open>stackCount - 1\<close> and reads
  \<^verbatim>\<open>assignedAccessCodes[i]\<close>; \<^verbatim>\<open>assignAccessCodes\<close> returns exactly \<open>stackCount\<close>
  codes, so the loop is the recursion over that list, with \<open>i\<close> counting. A round that
  throws ends the loop; the writes made so far stay.
\<close>

fun deployLoop ::
  "deployEnv \<Rightarrow> string \<Rightarrow> nat \<Rightarrow> string \<Rightarrow> nat \<Rightarrow> nat \<Rightarrow> string list
     \<Rightarrow> deployCounters \<Rightarrow> world \<Rightarrow> (LambdaError + deployCounters) \<times> world" where
  "deployLoop env stackPrefix timestamp now stackCount i [] acc w = (Inr acc, w)"
| "deployLoop env stackPrefix timestamp now stackCount i (accessCode # rest) acc w =
     (case deployOne env stackPrefix timestamp now stackCount i accessCode acc w of
        (Some e, acc1, w1) \<Rightarrow> (Inl e, w1)
      | (None, acc1, w1) \<Rightarrow>
          deployLoop env stackPrefix timestamp now stackCount (i + 1) rest acc1 w1)"

definition deployStacks ::
  "deployEnv \<Rightarrow> DeploymentConfig \<Rightarrow> nat \<Rightarrow> string \<Rightarrow> int \<Rightarrow> string list option \<Rightarrow> world
     \<Rightarrow> (LambdaError + DeploymentResponse) \<times> world" where
  "deployStacks env config timestamp now stackCount selectedAccessCodes w =
     (case validateStackCount config stackCount of
        Some e \<Rightarrow> (Inl e, w)
      | None \<Rightarrow>
     (case validateTemplateUrl (urlProtocol env) (templateUrl config) of
        Some e \<Rightarrow> (Inl e, w)
      | None \<Rightarrow>
     (case assignAccessCodes (nat stackCount) selectedAccessCodes (table w) of
        Inl e \<Rightarrow> (Inl e, w)
      | Inr assigned \<Rightarrow>
          let stackPrefix = (case stackNamePrefix config of
                               None \<Rightarrow> ''deployment-stack''
                             | Some p \<Rightarrow> if p = [] then ''deployment-stack'' else p)
          in (case deployLoop env stackPrefix timestamp now (nat stackCount) 0 assigned
                     \<lparr> stacksSoFar = [], successfulDeployments = 0, failedDeployments = 0 \<rparr> w of
                (Inl e, w1) \<Rightarrow> (Inl e, w1)
              | (Inr acc, w1) \<Rightarrow>
                  (Inr \<lparr> deployedStacks = stacksSoFar acc, assignedAccessCodes = assigned \<rparr>,
                   if successfulDeployments acc > 0
                   then manageRuleBasedOnStackCount (ruleOracle env) w1 else w1)))))"

section \<open>The reconciliation pass\<close>

text \<open>
  \<^verbatim>\<open>amplify/functions/stack-sync/handler.ts\<close>. A stack as DescribeStacks returns it; its
  \<^verbatim>\<open>StackStatus\<close> is cast to the type of the record's \<^verbatim>\<open>status\<close>. The comparison of the
  outputs through \<^verbatim>\<open>JSON.stringify\<close> is the equality of the lists.
\<close>

record cfOutput =
  OutputKey :: "string option"
  OutputValue :: "string option"
  Description :: "string option"

record Stack =
  StackName :: "string option"
  StackId :: "string option"
  StackStatus :: status
  CreationTime :: "string option"
  Outputs :: "cfOutput list option"

definition convertCloudFormationOutputs :: "cfOutput list option \<Rightarrow> StackOutput list" where
  "convertCloudFormationOutputs cfOutputs =
     (case cfOutputs of
        None \<Rightarrow> []
      | Some os \<Rightarrow>
          map (\<lambda>output. \<lparr> outputKey = the (OutputKey output),
                           outputValue = the (OutputValue output),
                           description = Description output \<rparr>)
            (filter (\<lambda>output. truthy (OutputKey output) \<and> truthy (OutputValue output)) os))"

text \<open>\<^verbatim>\<open>s.includes(p)\<close>.\<close>

fun stringIncludes :: "string \<Rightarrow> string \<Rightarrow> bool" where
  "stringIncludes [] p = (p = [])"
| "stringIncludes (c # cs) p = (take (length p) (c # cs) = p \<or> stringIncludes cs p)"

definition stackDoesNotExist :: "sdkError \<Rightarrow> bool" where
  "stackDoesNotExist error =
     (errName error = ''ValidationError'' \<and> stringIncludes (errMessage error) ''does not exist'')"

text \<open>\<^verbatim>\<open>error.message || String(error)\<close>: an error without message prints as its name.\<close>

definition errorMessageOf :: "sdkError \<Rightarrow> string" where
  "errorMessageOf error = (if errMessage error \<noteq> [] then errMessage error else errName error)"

definition markAvailable :: "updates \<Rightarrow> updates" where
  "markAvailable updates = updates\<lparr> u_status := Some AVAILABLE, u_stackArn := Undefined,
     u_stackName := Undefined, u_stackId := Undefined, u_outputs := Undefined,
     u_createdAt := Undefined \<rparr>"

text \<open>
  The \<^verbatim>\<open>updates\<close> object and \<^verbatim>\<open>hasChanges\<close> that \<^verbatim>\<open>syncStackRecord\<close> builds from the
  record, \<^verbatim>\<open>stackExists\<close> and the described stack.
\<close>

definition syncUpdates ::
  "string \<Rightarrow> StackRecord \<Rightarrow> bool \<Rightarrow> Stack option \<Rightarrow> updates \<times> bool" where
  "syncUpdates now record stackExists stack =
     (let updates = noUpdates\<lparr> u_lastSyncAt := Assign now, u_syncError := Undefined \<rparr> in
      if \<not> stackExists then
        (if status record \<noteq> AVAILABLE then (markAvailable updates, True) else (updates, False))
      else case stack of
        None \<Rightarrow> (updates, False)
      | Some stack \<Rightarrow>
          let currentStatus = StackStatus stack in
          if currentStatus = DELETE_COMPLETE then (markAvailable updates, True)
          else
            let c1 = (if status record \<noteq> currentStatus
                      then (updates\<lparr> u_status := Some currentStatus \<rparr>, True)
                      else (updates, False));
                c2 = (if stackName record \<noteq> StackName stack
                      then ((fst c1)\<lparr> u_stackName := ofOptional (StackName stack) \<rparr>, True)
                      else c1);
                c3 = (if stackId record \<noteq> StackId stack
                      then ((fst c2)\<lparr> u_stackId := ofOptional (StackId stack) \<rparr>, True)
                      else c2);
                c4 = (if \<not> truthy (createdAt record) \<and> CreationTime stack \<noteq> None
                      then ((fst c3)\<lparr> u_createdAt := ofOptional (CreationTime stack) \<rparr>, True)
                      else c3)
            in if currentStatus = CREATE_COMPLETE \<or> currentStatus = UPDATE_COMPLETE
               then let newOutputs = convertCloudFormationOutputs (Outputs stack);
                        currentOutputs = (case outputs record of None \<Rightarrow> [] | Some os \<Rightarrow> os)
                    in if currentOutputs \<noteq> newOutputs
                       then ((fst c4)\<lparr> u_outputs := Assign newOutputs \<rparr>, True)
                       else c4
               else c4)"

text \<open>
  The oracle of a pass: what DescribeStacks answers for a stack ARN (an error, or the first
  stack of the response, if any), whether the UpdateItem of the \<^verbatim>\<open>try\<close> block throws for
  an Access Code, and whether the UpdateItem of the \<^verbatim>\<open>catch\<close> block does.
\<close>

record syncEnv =
  describeStacks :: "string \<Rightarrow> sdkError + Stack option"
  syncUpdateThrows :: "string \<Rightarrow> sdkError option"
  errorUpdateThrows :: "string \<Rightarrow> bool"
  syncRuleOracle :: ruleEnv

record SyncOutcome =
  r_success :: bool
  r_error :: "string option"

text \<open>The \<^verbatim>\<open>catch\<close> block of \<^verbatim>\<open>syncStackRecord\<close>.\<close>

definition recordSyncError ::
  "syncEnv \<Rightarrow> string \<Rightarrow> StackRecord \<Rightarrow> string \<Rightarrow> world \<Rightarrow> SyncOutcome \<times> world" where
  "recordSyncError env now record errorMessage w =
     (\<lparr> r_success = False, r_error = Some errorMessage \<rparr>,
      if errorUpdateThrows env (guid record) then w
      else w\<lparr> table := updateStackRecord (guid record)
                 (noUpdates\<lparr> u_syncError := Assign errorMessage, u_lastSyncAt := Assign now \<rparr>)
                 now (table w) \<rparr>)"

text \<open>The write at the end of the \<^verbatim>\<open>try\<close> block.\<close>

definition writeSync ::
  "syncEnv \<Rightarrow> string \<Rightarrow> StackRecord \<Rightarrow> updates \<times> bool \<Rightarrow> world \<Rightarrow> SyncOutcome \<times> world" where
  "writeSync env now record changes w =
     (let written = (if snd changes then fst changes
                     else noUpdates\<lparr> u_lastSyncAt := Assign now \<rparr>)
      in case syncUpdateThrows env (guid record) of
           Some error \<Rightarrow> recordSyncError env now record (errorMessageOf error) w
         | None \<Rightarrow>
             (\<lparr> r_success = True, r_error = None \<rparr>,
              w\<lparr> table := updateStackRecord (guid record) written now (table w) \<rparr>))"

definition syncStackRecord ::
  "syncEnv \<Rightarrow> string \<Rightarrow> StackRecord \<Rightarrow> world \<Rightarrow> SyncOutcome \<times> world" where
  "syncStackRecord env now record w =
     (case stackArn record of
        None \<Rightarrow> (\<lparr> r_success = True, r_error = None \<rparr>, w)
      | Some arn \<Rightarrow>
          if arn = [] then (\<lparr> r_success = True, r_error = None \<rparr>, w)
          else
            let w1 = w\<lparr> calls := calls w @ [DescribeStacksCommand arn] \<rparr> in
            (case describeStacks env arn of
               Inr stack \<Rightarrow> writeSync env now record (syncUpdates now record True stack) w1
             | Inl error \<Rightarrow>
                 if stackDoesNotExist error
                 then writeSync env now record (syncUpdates now record False None) w1
                 else recordSyncError env now record (errorMessageOf error) w1))"

definition validateAllStacksDeletionComplete :: "world \<Rightarrow> bool" where
  "validateAllStacksDeletionComplete w =
     (\<not> length (getNonAvailableStackRecords (table w)) > 0)"

record SyncResult =
  totalProcessed :: nat
  successfulSyncs :: nat
  failedSyncs :: nat
  errors :: "(string \<times> string) list"

text \<open>One round of the loop of \<^verbatim>\<open>syncAllStacks\<close>.\<close>

definition syncOne ::
  "syncEnv \<Rightarrow> string \<Rightarrow> SyncResult \<times> world \<Rightarrow> StackRecord \<Rightarrow> SyncResult \<times> world" where
  "syncOne env now acc record =
     (let result = fst acc;
          step = syncStackRecord env now record (snd acc);
          syncResult = fst step
      in if r_success syncResult
         then (result\<lparr> successfulSyncs := successfulSyncs result + 1 \<rparr>, snd step)
         else (result\<lparr> failedSyncs := failedSyncs result + 1,
                        errors := errors result @
                          [(guid record,
                            (case r_error syncResult of
                               None \<Rightarrow> ''Unknown error''
                             | Some e \<Rightarrow> if e \<noteq> [] then e else ''Unknown error''))] \<rparr>,
               snd step))"

definition afterSync :: "syncEnv \<Rightarrow> world \<Rightarrow> world" where
  "afterSync env w =
     (if validateAllStacksDeletionComplete w then ensureRuleDisabled (syncRuleOracle env) w
      else w)"

definition syncAllStacks :: "syncEnv \<Rightarrow> string \<Rightarrow> world \<Rightarrow> SyncResult \<times> world" where
  "syncAllStacks env now w =
     (let nonAvailableRecords = getNonAvailableStackRecords (table w);
          result = \<lparr> totalProcessed = length nonAvailableRecords, successfulSyncs = 0,
                     failedSyncs = 0, errors = [] \<rparr>
      in if nonAvailableRecords = [] then (result, afterSync env w)
         else let done = foldl (syncOne env now) (result, w) nonAvailableRecords
              in (fst done, afterSync env (snd done)))"

section \<open>The pool and its read model\<close>

text \<open>
  \<^verbatim>\<open>batches\<close>: the slices of at most \<open>n\<close> elements that \<^verbatim>\<open>batchGetStackRecords\<close>
  (\<open>n = 100\<close>) and \<^verbatim>\<open>batchPutStackRecords\<close> (\<open>n = 25\<close>) send one after the other.
\<close>

function batches :: "nat \<Rightarrow> 'a list \<Rightarrow> 'a list list" where
  "batches n xs = (if n = 0 \<or> xs = [] then [] else take n xs # batches n (drop n xs))"
  by pat_completeness auto
termination
  by (relation "measure (\<lambda>(n, xs). length xs)") auto

declare batches.simps [simp del]

definition batchGetStackRecords :: "string list \<Rightarrow> table \<Rightarrow> StackRecord list" where
  "batchGetStackRecords accessCodes tbl =
     (if accessCodes = [] then []
      else concat (map (\<lambda>batch. filter (\<lambda>r. guid r \<in> set batch) tbl)
                     (batches 100 accessCodes)))"

definition batchPutStackRecords :: "StackRecord list \<Rightarrow> table \<Rightarrow> table" where
  "batchPutStackRecords records tbl =
     (if records = [] then tbl
      else foldl (\<lambda>t batch. foldl (\<lambda>t' record. putStackRecord record t') t batch) tbl
             (batches 25 records))"

text \<open>\<^verbatim>\<open>initializeAccessCodePool\<close>, where its reads and writes succeed.\<close>

definition initializeAccessCodePool :: "string list \<Rightarrow> string \<Rightarrow> table \<Rightarrow> table" where
  "initializeAccessCodePool accessCodes now tbl =
     (let existingRecords = batchGetStackRecords accessCodes tbl;
          existingAccessCodes = set (map guid existingRecords);
          newRecords =
            map (\<lambda>accessCode. \<lparr> guid = accessCode, stackArn = None, stackName = None,
                                 stackId = None, status = AVAILABLE, createdAt = None,
                                 updatedAt = now, outputs = None, lastSyncAt = None,
                                 syncError = None \<rparr>)
              (filter (\<lambda>accessCode. accessCode \<notin> existingAccessCodes) accessCodes)
      in if newRecords \<noteq> [] then batchPutStackRecords newRecords tbl else tbl)"

record AccessCodeStatus =
  a_accessCode :: string
  isLinked :: bool
  a_stackName :: "string option"
  a_stackId :: "string option"
  a_createdAt :: "string option"
  a_status :: "status option"

definition stackRecordToAccessCodeStatus :: "StackRecord \<Rightarrow> AccessCodeStatus" where
  "stackRecordToAccessCodeStatus record =
     \<lparr> a_accessCode = guid record,
       isLinked = (status record \<noteq> AVAILABLE \<and> truthy (stackArn record)),
       a_stackName = stackName record,
       a_stackId = stackId record,
       a_createdAt = (if truthy (createdAt record) then createdAt record else None),
       a_status = (if status record = AVAILABLE then None else Some (status record)) \<rparr>"

record AccessCodeStatusResponse =
  accessCodeStatuses :: "AccessCodeStatus list"
  totalAvailable :: nat
  totalLinked :: nat

definition getAllAccessCodeStatuses :: "table \<Rightarrow> LambdaError + AccessCodeStatusResponse" where
  "getAllAccessCodeStatuses tbl =
     (let accessCodePool = getAccessCodePool tbl in
      if accessCodePool = []
      then Inl (LambdaError 500 ''ACCESS_CODE_POOL_EMPTY'' (PoolSize 0))
      else
        let stackRecords = batchGetStackRecords accessCodePool tbl;
            recordMap = foldl (\<lambda>m record. m(guid record \<mapsto> record)) Map.empty stackRecords;
            statuses =
              map (\<lambda>c. case recordMap c of
                             None \<Rightarrow> \<lparr> a_accessCode = c, isLinked = False, a_stackName = None,
                                       a_stackId = None, a_createdAt = None, a_status = None \<rparr>
                           | Some record \<Rightarrow> stackRecordToAccessCodeStatus record)
                accessCodePool;
            linked = length (filter isLinked statuses)
        in Inr \<lparr> accessCodeStatuses = statuses,
                 totalAvailable = length accessCodePool - linked,
                 totalLinked = linked \<rparr>)"

section \<open>Sequences of operations\<close>

datatype operation =
    Allocate deployEnv DeploymentConfig nat string int "string list option"
  | DeleteOne deleteEnv string string
  | DeleteAll deleteEnv string
  | Reconcile syncEnv string

fun perform :: "operation \<Rightarrow> world \<Rightarrow> world" where
  "perform (Allocate env config timestamp now stackCount selectedAccessCodes) w =
     snd (deployStacks env config timestamp now stackCount selectedAccessCodes w)"
| "perform (DeleteOne env now c) w = snd (deleteStackByAccessCode env now c w)"
| "perform (DeleteAll env now) w = snd (deleteAllStacks env now w)"
| "perform (Reconcile env now) w = snd (syncAllStacks env now w)"

definition run :: "operation list \<Rightarrow> world \<Rightarrow> world" where
  "run ops w = foldl (\<lambda>w' op. perform op w') w ops"

section \<open>Example states\<close>

definition codeA :: string where
  "codeA = ''0a1b2c3d-0000-4000-8000-00000000000a''"

definition codeB :: string where
  "codeB = ''0a1b2c3d-0000-4000-8000-00000000000b''"

definition codeC :: string where
  "codeC = ''0a1b2c3d-0000-4000-8000-00000000000c''"

definition availableRecord :: "string \<Rightarrow> StackRecord" where
  "availableRecord c =
     \<lparr> guid = c, stackArn = None, stackName = None, stackId = None, status = AVAILABLE,
       createdAt = None, updatedAt = ''t0'', outputs = None, lastSyncAt = None,
       syncError = None \<rparr>"

definition linkedRecord :: "string \<Rightarrow> status \<Rightarrow> StackRecord" where
  "linkedRecord c s =
     \<lparr> guid = c, stackArn = Some (''arn:'' @ c), stackName = Some (''deployment-stack-'' @ c),
       stackId = Some (''arn:'' @ c), status = s, createdAt = Some ''t0'', updatedAt = ''t0'',
       outputs = None, lastSyncAt = None, syncError = None \<rparr>"

definition worldOf :: "table \<Rightarrow> world" where
  "worldOf tbl = \<lparr> table = tbl, syncRule = ENABLED, calls = [] \<rparr>"

definition quietDelete :: deleteEnv where
  "quietDelete = \<lparr> deleteStack = (\<lambda>name. None), updateThrows = (\<lambda>c. False) \<rparr>"

definition tenCodes :: "string list" where
  "tenCodes = [''c01'', ''c02'', ''c03'', ''c04'', ''c05'', ''c06'', ''c07'', ''c08'', ''c09'', ''c10'']"

definition plainConfig :: DeploymentConfig where
  "plainConfig = \<lparr> templateUrl = ''https://templates.example/stack.yaml'',
     stackNamePrefix = None, accessCodePoolSize = None \<rparr>"

definition quietRule :: ruleEnv where
  "quietRule = \<lparr> describeRuleThrows = False, enableRuleThrows = False,
     disableRuleThrows = False \<rparr>"

text \<open>A deployment in which the creations of the rounds 5 to 9 fail and no write throws.\<close>

definition lastFiveFail :: deployEnv where
  "lastFiveFail = \<lparr> urlProtocol = (\<lambda>url. Some ''https:''),
     createStack = (\<lambda>i. if i < 5 then Inr (Some ''arn:stack'')
                          else Inl (SdkError ''LimitExceededException'' [] ''limit'')),
     putThrows = (\<lambda>i. False), resetThrows = (\<lambda>i. False), ruleOracle = quietRule \<rparr>"

text \<open>
  A pass in which the stack of \<open>codeA\<close> no longer exists, every other stack is in
  \<open>DELETE_COMPLETE\<close>, and no call throws.
\<close>

definition goneEnv :: syncEnv where
  "goneEnv = \<lparr> describeStacks = (\<lambda>arn.
       if arn = ''arn:'' @ codeA
       then Inl (SdkError ''ValidationError'' [] ''Stack with id x does not exist'')
       else Inr (Some \<lparr> StackName = None, StackId = Some arn, StackStatus = DELETE_COMPLETE,
                        CreationTime = None, Outputs = None \<rparr>)),
     syncUpdateThrows = (\<lambda>c. None), errorUpdateThrows = (\<lambda>c. False),
     syncRuleOracle = quietRule \<rparr>"

text \<open>
  A pass in which CloudFormation describes every stack as the record
  \<open>linkedRecord codeA CREATE_COMPLETE\<close> has the stack of \<open>codeA\<close>, and no call throws.
\<close>

definition steadyEnv :: syncEnv where
  "steadyEnv = \<lparr> describeStacks = (\<lambda>arn.
       Inr (Some \<lparr> StackName = Some (''deployment-stack-'' @ codeA), StackId = Some arn,
                    StackStatus = CREATE_COMPLETE, CreationTime = Some ''t0'',
                    Outputs = None \<rparr>)),
     syncUpdateThrows = (\<lambda>c. None), errorUpdateThrows = (\<lambda>c. False),
     syncRuleOracle = quietRule \<rparr>"

text \<open>A deployment in which every creation fails and no write throws.\<close>

definition noneCreated :: deployEnv where
  "noneCreated = \<lparr> urlProtocol = (\<lambda>url. Some ''https:''),
     createStack = (\<lambda>i. Inl (SdkError ''LimitExceededException'' [] ''limit'')),
     putThrows = (\<lambda>i. False), resetThrows = (\<lambda>i. False), ruleOracle = quietRule \<rparr>"

section \<open>Statuses by name\<close>

text \<open>
  The statuses of an operation that is still running are those whose name ends in
  \<^verbatim>\<open>_IN_PROGRESS\<close>.
\<close>

definition endsWith :: "string \<Rightarrow> string \<Rightarrow> bool" where
  "endsWith s p = (length p \<le> length s \<and> drop (length s - length p) s = p)"

definition inProgress :: "status \<Rightarrow> bool" where
  "inProgress s = endsWith (statusName s) ''_IN_PROGRESS''"

text \<open>The statuses that the type of \<^verbatim>\<open>status\<close> in \<^verbatim>\<open>StackRecord\<close> declares.\<close>

definition declaredStatus :: "status \<Rightarrow> bool" where
  "declaredStatus s = (case s of OTHER name \<Rightarrow> False | _ \<Rightarrow> True)"

section \<open>Errors of a selection\<close>

text \<open>
  The four errors with which \<^verbatim>\<open>assignAccessCodes\<close> refuses a selection of Access Codes.
\<close>

definition invalidSelection :: "LambdaError \<Rightarrow> bool" where
  "invalidSelection e =
     (code e \<in> set [''ACCESS_CODE_COUNT_MISMATCH'', ''INVALID_ACCESS_CODES'',
                     ''ACCESS_CODES_NOT_AVAILABLE'', ''DUPLICATE_ACCESS_CODES''])"

section \<open>Notions for the properties of a deployment\<close>

text \<open>The creation of round \<open>i\<close> fails: CreateStack throws or returns no stack id.\<close>

definition createFails :: "deployEnv \<Rightarrow> nat \<Rightarrow> bool" where
  "createFails env i =
     (case createOutcome (createStack env i) of Inl errorMessage \<Rightarrow> True | Inr sid \<Rightarrow> False)"

definition failuresBefore :: "deployEnv \<Rightarrow> nat \<Rightarrow> nat" where
  "failuresBefore env n = length (filter (createFails env) [0..<n])"

text \<open>
  A record is linked as \<^verbatim>\<open>stackRecordToAccessCodeStatus\<close> computes \<^verbatim>\<open>isLinked\<close>. In a
  consistent table every record that is not \<open>AVAILABLE\<close> has a stack ARN.
\<close>

definition linked :: "StackRecord \<Rightarrow> bool" where
  "linked record = (status record \<noteq> AVAILABLE \<and> truthy (stackArn record))"

definition consistent :: "table \<Rightarrow> bool" where
  "consistent tbl = (\<forall>record \<in> set tbl. status record \<noteq> AVAILABLE \<longrightarrow> truthy (stackArn record))"

text \<open>The failed creations among the \<open>k\<close> rounds from the round \<open>i\<close> on.\<close>

definition failuresFrom :: "deployEnv \<Rightarrow> nat \<Rightarrow> nat \<Rightarrow> nat" where
  "failuresFrom env i k = length (filter (createFails env) [i..<i + k])"

text \<open>
  The item of the Access Code of the round \<open>j\<close> after that round, from the item before it:
  the PutItem after a creation, the UpdateItem after a failure, or neither when it throws.
\<close>

definition roundRecord ::
  "deployEnv \<Rightarrow> string \<Rightarrow> nat \<Rightarrow> string \<Rightarrow> nat \<Rightarrow> string \<Rightarrow> StackRecord option
     \<Rightarrow> StackRecord option" where
  "roundRecord env stackPrefix timestamp now j accessCode before =
     (case createOutcome (createStack env j) of
        Inr sid \<Rightarrow>
          if putThrows env j then before
          else Some \<lparr> guid = accessCode, stackArn = Some sid,
                 stackName = Some (stackNameOf stackPrefix accessCode timestamp j),
                 stackId = Some sid, status = CREATE_IN_PROGRESS, createdAt = Some now,
                 updatedAt = now, outputs = None, lastSyncAt = None, syncError = None \<rparr>
      | Inl errorMessage \<Rightarrow>
          if resetThrows env j then before
          else map_option (applyUpdates resetUpdates now) before)"

text \<open>\<^verbatim>\<open>config.stackNamePrefix || 'deployment-stack'\<close>.\<close>

definition stackPrefixOf :: "DeploymentConfig \<Rightarrow> string" where
  "stackPrefixOf config =
     (case stackNamePrefix config of
        None \<Rightarrow> ''deployment-stack''
      | Some p \<Rightarrow> if p = [] then ''deployment-stack'' else p)"

section \<open>Notions for the properties of a pass\<close>

text \<open>
  The updates of the UpdateItem with which the round of a pass for a record ends, when one
  succeeds: the one of the \<^verbatim>\<open>try\<close> block, or else the one of the \<^verbatim>\<open>catch\<close> block.
\<close>

definition syncWritten :: "syncEnv \<Rightarrow> string \<Rightarrow> StackRecord \<Rightarrow> updates option" where
  "syncWritten env now record =
     (let caught = (\<lambda>errorMessage.
            if errorUpdateThrows env (guid record) then None
            else Some (noUpdates\<lparr> u_syncError := Assign errorMessage,
                                  u_lastSyncAt := Assign now \<rparr>));
          tried = (\<lambda>changes.
            case syncUpdateThrows env (guid record) of
              Some error \<Rightarrow> caught (errorMessageOf error)
            | None \<Rightarrow> Some (if snd changes then fst changes
                            else noUpdates\<lparr> u_lastSyncAt := Assign now \<rparr>))
      in case stackArn record of
           None \<Rightarrow> None
         | Some arn \<Rightarrow>
             if arn = [] then None
             else (case describeStacks env arn of
                     Inr stack \<Rightarrow> tried (syncUpdates now record True stack)
                   | Inl error \<Rightarrow>
                       if stackDoesNotExist error
                       then tried (syncUpdates now record False None)
                       else caught (errorMessageOf error)))"

definition syncedRecord :: "syncEnv \<Rightarrow> string \<Rightarrow> StackRecord \<Rightarrow> StackRecord" where
  "syncedRecord env now record =
     (case syncWritten env now record of
        None \<Rightarrow> record
      | Some ups \<Rightarrow> applyUpdates ups now record)"


text \<open>A record reset to \<open>AVAILABLE\<close> by a pass at the time \<open>now\<close>.\<close>

definition resetRecord :: "string \<Rightarrow> StackRecord \<Rightarrow> StackRecord" where
  "resetRecord now record =
     record\<lparr> status := AVAILABLE, stackArn := None, stackName := None, stackId := None,
             outputs := None, createdAt := None, syncError := None,
             lastSyncAt := Some now, updatedAt := now \<rparr>"

text \<open>
  DescribeStacks reports that the stack is gone: it throws the error that
  \<^verbatim>\<open>syncStackRecord\<close> reads as a deleted stack, or returns a stack in \<open>DELETE_COMPLETE\<close>.
\<close>

definition reportsGone :: "sdkError + Stack option \<Rightarrow> bool" where
  "reportsGone answer =
     (case answer of
        Inl error \<Rightarrow> stackDoesNotExist error
      | Inr None \<Rightarrow> False
      | Inr (Some stack) \<Rightarrow> StackStatus stack = DELETE_COMPLETE)"

text \<open>CloudFormation has no status \<open>AVAILABLE\<close>.\<close>

definition cloudFormationStatuses :: "syncEnv \<Rightarrow> bool" where
  "cloudFormationStatuses env =
     (\<forall>arn stack. describeStacks env arn = Inr (Some stack) \<longrightarrow> StackStatus stack \<noteq> AVAILABLE)"

text \<open>
  The deletion of a linked record, alone or in \<^verbatim>\<open>deleteAllStacks\<close>, ends with the write
  of \<open>DELETE_IN_PROGRESS\<close>.
\<close>

definition deletionWritten :: "deleteEnv \<Rightarrow> StackRecord \<Rightarrow> bool" where
  "deletionWritten env record =
     (status record \<noteq> DELETE_IN_PROGRESS \<and> status record \<notin> set inProgressStates
      \<and> deleteStack env (stackName record) = None \<and> \<not> updateThrows env (guid record))"

definition deletedRecord :: "deleteEnv \<Rightarrow> string \<Rightarrow> StackRecord \<Rightarrow> StackRecord" where
  "deletedRecord env now record =
     (if linked record \<and> deletionWritten env record
      then record\<lparr> status := DELETE_IN_PROGRESS, updatedAt := now \<rparr> else record)"

section \<open>Properties of the table\<close>

lemma guid_applyUpdates [simp]: "guid (applyUpdates ups now r) = guid r"
  by (simp add: applyUpdates_def)

lemma map_guid_updateStackRecord [simp]:
  "map guid (updateStackRecord c ups now tbl) = map guid tbl"
  by (induction tbl) (simp_all add: updateStackRecord_def)

lemma getStackRecord_updateStackRecord:
  "getStackRecord c (updateStackRecord c ups now tbl) =
     map_option (applyUpdates ups now) (getStackRecord c tbl)"
  by (induction tbl) (simp_all add: updateStackRecord_def getStackRecord_def)

lemma getStackRecord_guid: "getStackRecord c tbl = Some r \<Longrightarrow> guid r = c"
  by (induction tbl) (auto simp: getStackRecord_def split: if_splits)

lemma getStackRecord_mem: "getStackRecord c tbl = Some r \<Longrightarrow> r \<in> set tbl"
  by (induction tbl) (auto simp: getStackRecord_def split: if_splits)

lemma uuidRegex_test_nonempty: "uuidRegex_test s \<Longrightarrow> s \<noteq> []"
  by (auto simp: uuidRegex_test_def)

lemma validateAccessCode_iff:
  "validateAccessCode c tbl = (uuidRegex_test c \<and> getStackRecord c tbl \<noteq> None)"
  by (auto simp: validateAccessCode_def dest: uuidRegex_test_nonempty)

lemma uuid_codeA: "uuidRegex_test codeA"
  by (simp add: uuidRegex_test_def isHexDigit_def codeA_def)

lemma uuid_codeB: "uuidRegex_test codeB"
  by (simp add: uuidRegex_test_def isHexDigit_def codeB_def)

lemma uuid_codeC: "uuidRegex_test codeC"
  by (simp add: uuidRegex_test_def isHexDigit_def codeC_def)

lemma codes_distinct: "codeA \<noteq> codeB" "codeA \<noteq> codeC" "codeB \<noteq> codeC"
  by (simp_all add: codeA_def codeB_def codeC_def)

section \<open>Status projection\<close>

lemma deletionSwitch_isComplete:
  "snd (deletionSwitch s) = (s = DELETE_COMPLETE \<or> s = DELETE_FAILED)"
  by (cases s) (simp_all add: deletionSwitch_def)

lemma bulkDeletionSwitch_isComplete:
  "snd (bulkDeletionSwitch s) = (s = DELETE_COMPLETE \<or> s = DELETE_FAILED)"
  by (cases s) (simp_all add: bulkDeletionSwitch_def)

lemma foldl_upd_Some:
  "foldl (\<lambda>m x. m(k x \<mapsto> v x)) m0 xs key = Some y \<Longrightarrow>
     (\<exists>x \<in> set xs. k x = key \<and> v x = y) \<or> m0 key = Some y"
  by (induction xs arbitrary: m0) (fastforce split: if_splits)+

lemma foldl_upd_dom:
  "dom (foldl (\<lambda>m x. m(k x \<mapsto> v x)) m0 xs) = dom m0 \<union> k ` set xs"
  by (induction xs arbitrary: m0) auto

lemma getDeletionStatus_valid:
  assumes "validateAccessCode c tbl"
  shows "\<exists>record. getStackRecord c tbl = Some record \<and>
           getDeletionStatus now c tbl =
             (if status record = AVAILABLE \<or> \<not> truthy (stackArn record)
              then Inr \<lparr> d_status = DELETE_COMPLETE,
                         progress = ''Stack has been successfully deleted and Access Code is now available for reuse.'',
                         isComplete = True \<rparr>
              else Inr \<lparr> d_status = status record,
                         progress = fst (deletionSwitch (status record)),
                         isComplete = (status record = DELETE_COMPLETE
                                       \<or> status record = DELETE_FAILED) \<rparr>)"
proof -
  from assms obtain rd where r: "getStackRecord c tbl = Some rd"
    by (auto simp: validateAccessCode_iff)
  show ?thesis
    using assms r
    by (simp add: getDeletionStatus_def findStackByAccessCode_def toActiveStack_def
        deletionSwitch_isComplete)
qed

lemma getAllDeletionStatus_entry:
  assumes "getAllDeletionStatus now tbl c = Some resp"
  shows "\<exists>record \<in> set tbl. guid record = c \<and> status record \<noteq> AVAILABLE
           \<and> truthy (stackArn record)
           \<and> resp = \<lparr> d_status = status record,
                       progress = fst (bulkDeletionSwitch (status record)),
                       isComplete = (status record = DELETE_COMPLETE
                                     \<or> status record = DELETE_FAILED) \<rparr>"
proof -
  from assms have "\<exists>x \<in> set (getAllActiveStacks now tbl). uniqueId x = c \<and> bulkEntry x = resp"
    unfolding getAllDeletionStatus_def by (auto dest: foldl_upd_Some)
  then show ?thesis
    by (auto simp: getAllActiveStacks_def getAllStackRecords_def toActiveStack_def bulkEntry_def
        bulkDeletionSwitch_isComplete)
qed

lemma getAllDeletionStatus_dom:
  "dom (getAllDeletionStatus now tbl) =
     guid ` {record \<in> set tbl. status record \<noteq> AVAILABLE \<and> truthy (stackArn record)}"
  unfolding getAllDeletionStatus_def foldl_upd_dom
  by (auto simp: getAllActiveStacks_def getAllStackRecords_def toActiveStack_def image_iff)

text \<open>
  C9, as amended. The deletion status of an Access Code that passes validation depends on
  the stored record only: an unlinked record (status \<open>AVAILABLE\<close> or no stack ARN) reports
  \<open>DELETE_COMPLETE\<close> with \<open>isComplete\<close> true, and a linked record reports its status, the
  message that the switch gives for that status, and \<open>isComplete\<close> true exactly for
  \<open>DELETE_COMPLETE\<close> and \<open>DELETE_FAILED\<close> (so false for every \<open>*_IN_PROGRESS\<close> and for
  every other \<open>*_FAILED\<close> status). The bulk status has one entry for each linked record
  and no other, built the same way from its own message table.
\<close>

theorem status_projection:
  "(validateAccessCode c tbl \<longrightarrow>
      (\<exists>record. getStackRecord c tbl = Some record \<and>
         getDeletionStatus now c tbl =
           (if status record = AVAILABLE \<or> \<not> truthy (stackArn record)
            then Inr \<lparr> d_status = DELETE_COMPLETE,
                       progress = ''Stack has been successfully deleted and Access Code is now available for reuse.'',
                       isComplete = True \<rparr>
            else Inr \<lparr> d_status = status record,
                       progress = fst (deletionSwitch (status record)),
                       isComplete = (status record = DELETE_COMPLETE
                                     \<or> status record = DELETE_FAILED) \<rparr>)))
   \<and> (\<forall>k resp. getAllDeletionStatus now tbl k = Some resp \<longrightarrow>
         (\<exists>record \<in> set tbl. guid record = k \<and> status record \<noteq> AVAILABLE
            \<and> truthy (stackArn record)
            \<and> resp = \<lparr> d_status = status record,
                        progress = fst (bulkDeletionSwitch (status record)),
                        isComplete = (status record = DELETE_COMPLETE
                                      \<or> status record = DELETE_FAILED) \<rparr>))
   \<and> dom (getAllDeletionStatus now tbl) =
       guid ` {record \<in> set tbl. status record \<noteq> AVAILABLE \<and> truthy (stackArn record)}"
  using getDeletionStatus_valid [of c tbl now] getAllDeletionStatus_entry [of now tbl]
    getAllDeletionStatus_dom [of now tbl]
  by blast

theorem status_projection_witness:
  "validateAccessCode codeA [linkedRecord codeA DELETE_FAILED, availableRecord codeB]
   \<and> getDeletionStatus ''t1'' codeA [linkedRecord codeA DELETE_FAILED, availableRecord codeB] =
       Inr \<lparr> d_status = DELETE_FAILED,
             progress = ''Stack deletion failed. Manual intervention may be required. The stack still exists and the Access Code remains linked.'',
             isComplete = True \<rparr>
   \<and> getAllDeletionStatus ''t1'' [linkedRecord codeA DELETE_FAILED, availableRecord codeB] codeA =
       Some \<lparr> d_status = DELETE_FAILED,
              progress = ''Stack deletion failed. Manual intervention may be required.'',
              isComplete = True \<rparr>"
proof -
  let ?tbl = "[linkedRecord codeA DELETE_FAILED, availableRecord codeB]"
  have v: "validateAccessCode codeA ?tbl"
    by (simp add: validateAccessCode_iff uuid_codeA getStackRecord_def linkedRecord_def)
  have g: "getStackRecord codeA ?tbl = Some (linkedRecord codeA DELETE_FAILED)"
    by (simp add: getStackRecord_def linkedRecord_def)
  have a: "getAllDeletionStatus ''t1'' ?tbl codeA =
       Some \<lparr> d_status = DELETE_FAILED,
              progress = ''Stack deletion failed. Manual intervention may be required.'',
              isComplete = True \<rparr>"
    by (simp add: getAllDeletionStatus_def getAllActiveStacks_def getAllStackRecords_def
        linkedRecord_def availableRecord_def truthy_def toActiveStack_def bulkEntry_def
        bulkDeletionSwitch_def)
  from status_projection [of codeA ?tbl "''t1''"] v g a show ?thesis
    by (simp add: linkedRecord_def availableRecord_def truthy_def deletionSwitch_def)
qed

theorem status_projection_counterexample:
  "getDeletionStatus ''t1'' codeA [linkedRecord codeA CREATE_FAILED] =
     Inr \<lparr> d_status = CREATE_FAILED,
           progress = ''Stack is in error state (CREATE_FAILED). The stack still exists and may require manual cleanup.'',
           isComplete = False \<rparr>"
  using uuid_codeA
  by (simp add: getDeletionStatus_def findStackByAccessCode_def validateAccessCode_iff
      getStackRecord_def linkedRecord_def truthy_def toActiveStack_def deletionSwitch_def
      statusName_def)

section \<open>Deleting one stack\<close>

lemma inProgressStates_declared:
  "declaredStatus s \<Longrightarrow>
     s \<in> set inProgressStates \<longleftrightarrow> inProgress s \<and> s \<noteq> DELETE_IN_PROGRESS"
  by (cases s)
    (simp_all add: inProgressStates_def inProgress_def endsWith_def statusName_def
      declaredStatus_def)

lemma deleteStackByAccessCode_cases:
  assumes v: "validateAccessCode c (table w)"
  shows "\<exists>record. getStackRecord c (table w) = Some record \<and>
     (if status record = AVAILABLE \<or> \<not> truthy (stackArn record)
      then deleteStackByAccessCode env now c w =
             (Inl (LambdaError 404 ''STACK_NOT_FOUND'' (AccessCodeDetail c)), w)
      else if status record = DELETE_IN_PROGRESS
      then deleteStackByAccessCode env now c w =
             (Inr \<lparr> success = False, deletionStatus = DELETE_IN_PROGRESS \<rparr>, w)
      else if status record \<in> set inProgressStates
      then deleteStackByAccessCode env now c w =
             (Inl (LambdaError 409 ''STACK_OPERATION_IN_PROGRESS''
                     (StackStatusDetail (stackName record) (status record))), w)
      else calls (snd (deleteStackByAccessCode env now c w)) =
             calls w @ [DeleteStackCommand (stackName record)]
         \<and> (case deleteStack env (stackName record) of
               Some error \<Rightarrow>
                 fst (deleteStackByAccessCode env now c w) =
                   Inl (handleCloudFormationError error ''stack deletion'')
                 \<and> table (snd (deleteStackByAccessCode env now c w)) = table w
             | None \<Rightarrow>
                 fst (deleteStackByAccessCode env now c w) =
                   Inr \<lparr> success = True, deletionStatus = DELETE_IN_PROGRESS \<rparr>
                 \<and> getStackRecord c (table (snd (deleteStackByAccessCode env now c w))) =
                     Some (if updateThrows env c then record
                           else record\<lparr> status := DELETE_IN_PROGRESS, updatedAt := now \<rparr>)))"
proof -
  from v obtain rd where r: "getStackRecord c (table w) = Some rd"
    by (auto simp: validateAccessCode_iff)
  have f: "findStackByAccessCode now c (table w) =
             (if status rd = AVAILABLE \<or> \<not> truthy (stackArn rd) then Inr None
              else Inr (Some (toActiveStack now rd)))"
    using v r by (simp add: findStackByAccessCode_def)
  have u: "applyUpdates (noUpdates\<lparr> u_status := Some DELETE_IN_PROGRESS \<rparr>) now rd =
             rd\<lparr> status := DELETE_IN_PROGRESS, updatedAt := now \<rparr>"
    by (simp add: applyUpdates_def noUpdates_def applyField_def)
  show ?thesis
    using r u
    by (auto simp: deleteStackByAccessCode_def f toActiveStack_def Let_def
        getStackRecord_updateStackRecord split: option.splits)
qed

text \<open>
  C4, as amended. For an Access Code that passes validation (a UUID with a record in the
  table), \<^verbatim>\<open>deleteStackByAccessCode\<close> fails with \<^verbatim>\<open>STACK_NOT_FOUND\<close> (404) when the
  record is \<open>AVAILABLE\<close> or has no stack ARN; returns \<open>success = False\<close> without an error
  when the status is \<open>DELETE_IN_PROGRESS\<close>; fails with \<^verbatim>\<open>STACK_OPERATION_IN_PROGRESS\<close>
  (409) when the status is one of \<open>CREATE_IN_PROGRESS\<close>, \<open>ROLLBACK_IN_PROGRESS\<close>,
  \<open>UPDATE_IN_PROGRESS\<close>, \<open>UPDATE_ROLLBACK_IN_PROGRESS\<close> and \<open>REVIEW_IN_PROGRESS\<close>, which
  are the other \<open>*_IN_PROGRESS\<close> statuses among those that the type of the record
  declares; in these three cases it sends no command and writes nothing. For every other
  status, declared or not, it sends DeleteStack for the record's stack name and, when that
  succeeds, returns \<open>success = True\<close> and writes the status \<open>DELETE_IN_PROGRESS\<close> (the
  write is best effort).
\<close>

theorem deleteOne_guards:
  assumes "validateAccessCode c (table w)"
  shows "\<exists>record. getStackRecord c (table w) = Some record \<and>
     (if status record = AVAILABLE \<or> \<not> truthy (stackArn record)
      then deleteStackByAccessCode env now c w =
             (Inl (LambdaError 404 ''STACK_NOT_FOUND'' (AccessCodeDetail c)), w)
      else if status record = DELETE_IN_PROGRESS
      then deleteStackByAccessCode env now c w =
             (Inr \<lparr> success = False, deletionStatus = DELETE_IN_PROGRESS \<rparr>, w)
      else if status record \<in> set [CREATE_IN_PROGRESS, ROLLBACK_IN_PROGRESS,
                UPDATE_IN_PROGRESS, UPDATE_ROLLBACK_IN_PROGRESS, REVIEW_IN_PROGRESS]
      then deleteStackByAccessCode env now c w =
             (Inl (LambdaError 409 ''STACK_OPERATION_IN_PROGRESS''
                     (StackStatusDetail (stackName record) (status record))), w)
      else calls (snd (deleteStackByAccessCode env now c w)) =
             calls w @ [DeleteStackCommand (stackName record)]
         \<and> (case deleteStack env (stackName record) of
               Some error \<Rightarrow>
                 fst (deleteStackByAccessCode env now c w) =
                   Inl (handleCloudFormationError error ''stack deletion'')
                 \<and> table (snd (deleteStackByAccessCode env now c w)) = table w
             | None \<Rightarrow>
                 fst (deleteStackByAccessCode env now c w) =
                   Inr \<lparr> success = True, deletionStatus = DELETE_IN_PROGRESS \<rparr>
                 \<and> getStackRecord c (table (snd (deleteStackByAccessCode env now c w))) =
                     Some (if updateThrows env c then record
                           else record\<lparr> status := DELETE_IN_PROGRESS, updatedAt := now \<rparr>)))
     \<and> (declaredStatus (status record) \<longrightarrow>
          (status record \<in> set [CREATE_IN_PROGRESS, ROLLBACK_IN_PROGRESS,
              UPDATE_IN_PROGRESS, UPDATE_ROLLBACK_IN_PROGRESS, REVIEW_IN_PROGRESS])
            = (inProgress (status record) \<and> status record \<noteq> DELETE_IN_PROGRESS))"
proof -
  from deleteStackByAccessCode_cases [OF assms, of env now]
  obtain rd where r: "getStackRecord c (table w) = Some rd"
    and g: "(if status rd = AVAILABLE \<or> \<not> truthy (stackArn rd)
      then deleteStackByAccessCode env now c w =
             (Inl (LambdaError 404 ''STACK_NOT_FOUND'' (AccessCodeDetail c)), w)
      else if status rd = DELETE_IN_PROGRESS
      then deleteStackByAccessCode env now c w =
             (Inr \<lparr> success = False, deletionStatus = DELETE_IN_PROGRESS \<rparr>, w)
      else if status rd \<in> set inProgressStates
      then deleteStackByAccessCode env now c w =
             (Inl (LambdaError 409 ''STACK_OPERATION_IN_PROGRESS''
                     (StackStatusDetail (stackName rd) (status rd))), w)
      else calls (snd (deleteStackByAccessCode env now c w)) =
             calls w @ [DeleteStackCommand (stackName rd)]
         \<and> (case deleteStack env (stackName rd) of
               Some error \<Rightarrow>
                 fst (deleteStackByAccessCode env now c w) =
                   Inl (handleCloudFormationError error ''stack deletion'')
                 \<and> table (snd (deleteStackByAccessCode env now c w)) = table w
             | None \<Rightarrow>
                 fst (deleteStackByAccessCode env now c w) =
                   Inr \<lparr> success = True, deletionStatus = DELETE_IN_PROGRESS \<rparr>
                 \<and> getStackRecord c (table (snd (deleteStackByAccessCode env now c w))) =
                     Some (if updateThrows env c then rd
                           else rd\<lparr> status := DELETE_IN_PROGRESS, updatedAt := now \<rparr>)))"
    by blast
  have l: "inProgressStates = [CREATE_IN_PROGRESS, ROLLBACK_IN_PROGRESS,
              UPDATE_IN_PROGRESS, UPDATE_ROLLBACK_IN_PROGRESS, REVIEW_IN_PROGRESS]"
    by (simp add: inProgressStates_def)
  from inProgressStates_declared [of "status rd"]
  have d: "declaredStatus (status rd) \<longrightarrow>
          (status rd \<in> set [CREATE_IN_PROGRESS, ROLLBACK_IN_PROGRESS,
              UPDATE_IN_PROGRESS, UPDATE_ROLLBACK_IN_PROGRESS, REVIEW_IN_PROGRESS])
            = (inProgress (status rd) \<and> status rd \<noteq> DELETE_IN_PROGRESS)"
    unfolding l by blast
  from r g [unfolded l] d show ?thesis
    by blast
qed

text \<open>
  The deletion of a stack in \<open>CREATE_COMPLETE\<close>, of a stack in \<open>CREATE_IN_PROGRESS\<close>, and
  of a stack whose status is none of the declared ones.
\<close>

theorem deleteOne_guards_witness:
  "validateAccessCode codeA (table (worldOf [linkedRecord codeA CREATE_COMPLETE]))
   \<and> declaredStatus CREATE_COMPLETE
   \<and> fst (deleteStackByAccessCode quietDelete ''t1'' codeA
            (worldOf [linkedRecord codeA CREATE_COMPLETE])) =
       Inr \<lparr> success = True, deletionStatus = DELETE_IN_PROGRESS \<rparr>
   \<and> calls (snd (deleteStackByAccessCode quietDelete ''t1'' codeA
                   (worldOf [linkedRecord codeA CREATE_COMPLETE]))) =
       [DeleteStackCommand (Some (''deployment-stack-'' @ codeA))]
   \<and> getStackRecord codeA (table (snd (deleteStackByAccessCode quietDelete ''t1'' codeA
                   (worldOf [linkedRecord codeA CREATE_COMPLETE])))) =
       Some ((linkedRecord codeA CREATE_COMPLETE)
               \<lparr> status := DELETE_IN_PROGRESS, updatedAt := ''t1'' \<rparr>)
   \<and> validateAccessCode codeA (table (worldOf [linkedRecord codeA CREATE_IN_PROGRESS]))
   \<and> declaredStatus CREATE_IN_PROGRESS
   \<and> inProgress CREATE_IN_PROGRESS
   \<and> deleteStackByAccessCode quietDelete ''t1'' codeA
         (worldOf [linkedRecord codeA CREATE_IN_PROGRESS]) =
       (Inl (LambdaError 409 ''STACK_OPERATION_IN_PROGRESS''
               (StackStatusDetail (Some (''deployment-stack-'' @ codeA)) CREATE_IN_PROGRESS)),
        worldOf [linkedRecord codeA CREATE_IN_PROGRESS])"
proof -
  let ?w = "worldOf [linkedRecord codeA CREATE_COMPLETE]"
  let ?v = "worldOf [linkedRecord codeA CREATE_IN_PROGRESS]"
  have g: "getStackRecord codeA (table ?w) = Some (linkedRecord codeA CREATE_COMPLETE)"
    "getStackRecord codeA (table ?v) = Some (linkedRecord codeA CREATE_IN_PROGRESS)"
    by (simp_all add: getStackRecord_def worldOf_def linkedRecord_def)
  have v: "validateAccessCode codeA (table ?w)" "validateAccessCode codeA (table ?v)"
    by (simp_all add: validateAccessCode_iff uuid_codeA g)
  have p: "inProgress CREATE_IN_PROGRESS" "declaredStatus CREATE_IN_PROGRESS"
    "declaredStatus CREATE_COMPLETE"
    by (simp_all add: inProgress_def endsWith_def statusName_def declaredStatus_def)
  have f: "status (linkedRecord codeA s) = s" "truthy (stackArn (linkedRecord codeA s))"
    "stackName (linkedRecord codeA s) = Some (''deployment-stack-'' @ codeA)" for s
    by (simp_all add: linkedRecord_def truthy_def)
  have c: "calls (worldOf t) = []" for t
    by (simp add: worldOf_def)
  from deleteOne_guards [OF v(1), of quietDelete "''t1''"]
    deleteOne_guards [OF v(2), of quietDelete "''t1''"]
  show ?thesis
    using v by (simp add: g f p c quietDelete_def)
qed

theorem deleteOne_guards_counterexample:
  "inProgress (OTHER ''UPDATE_COMPLETE_CLEANUP_IN_PROGRESS'')
   \<and> OTHER ''UPDATE_COMPLETE_CLEANUP_IN_PROGRESS'' \<noteq> DELETE_IN_PROGRESS
   \<and> statusName (OTHER ''UPDATE_COMPLETE_CLEANUP_IN_PROGRESS'')
       = ''UPDATE_COMPLETE_CLEANUP_IN_PROGRESS''
   \<and> fst (deleteStackByAccessCode quietDelete ''t1'' codeA
            (worldOf [linkedRecord codeA (OTHER ''UPDATE_COMPLETE_CLEANUP_IN_PROGRESS'')])) =
       Inr \<lparr> success = True, deletionStatus = DELETE_IN_PROGRESS \<rparr>
   \<and> calls (snd (deleteStackByAccessCode quietDelete ''t1'' codeA
            (worldOf [linkedRecord codeA (OTHER ''UPDATE_COMPLETE_CLEANUP_IN_PROGRESS'')]))) =
       [DeleteStackCommand (Some (''deployment-stack-'' @ codeA))]"
  using uuid_codeA
  by (simp add: inProgress_def endsWith_def statusName_def deleteStackByAccessCode_def
      findStackByAccessCode_def validateAccessCode_iff getStackRecord_def worldOf_def
      linkedRecord_def truthy_def toActiveStack_def inProgressStates_def quietDelete_def
      Let_def)

section \<open>Assigning Access Codes\<close>

lemma indexOf_less: "a \<in> set xs \<Longrightarrow> indexOf xs a < length xs"
  by (induction xs) (auto simp: indexOf_def)

lemma nth_indexOf: "a \<in> set xs \<Longrightarrow> xs ! indexOf xs a = a"
  by (induction xs) (auto simp: indexOf_def)

lemma indexOf_nth_le: "i < length xs \<Longrightarrow> indexOf xs (xs ! i) \<le> i"
proof (induction xs arbitrary: i)
  case Nil
  then show ?case by simp
next
  case (Cons x xs)
  then show ?case by (cases i) (auto simp: indexOf_def)
qed

lemma indexOf_nth_distinct:
  assumes "distinct xs" and "i < length xs"
  shows "indexOf xs (xs ! i) = i"
proof -
  have "xs ! i \<in> set xs" using assms(2) by simp
  then have "indexOf xs (xs ! i) < length xs" and "xs ! indexOf xs (xs ! i) = xs ! i"
    by (simp_all add: indexOf_less nth_indexOf)
  with assms show ?thesis by (simp add: nth_eq_iff_index_eq)
qed

lemma duplicatesOf_empty: "duplicatesOf xs = [] \<longleftrightarrow> distinct xs"
proof
  assume e: "duplicatesOf xs = []"
  have all: "indexOf xs (xs ! i) = i" if "i < length xs" for i
  proof -
    from that have "(xs ! i, i) \<in> set (zip xs [0..<length xs])"
      by (auto simp: set_zip)
    with e show ?thesis
      by (auto simp: duplicatesOf_def filter_empty_conv)
  qed
  show "distinct xs"
    unfolding distinct_conv_nth
  proof (intro allI impI)
    fix i j
    assume "i < length xs" "j < length xs" "i \<noteq> j"
    then show "xs ! i \<noteq> xs ! j"
      using all [of i] all [of j] by auto
  qed
next
  assume "distinct xs"
  then show "duplicatesOf xs = []"
    by (auto simp: duplicatesOf_def filter_empty_conv set_zip indexOf_nth_distinct)
qed

lemma getAvailableAccessCodes_subset:
  "set (getAvailableAccessCodes tbl) \<subseteq> set (getAccessCodePool tbl)"
  by (auto simp: getAvailableAccessCodes_def getAccessCodePool_def getAllStackRecords_def)

lemma assignAccessCodes_empty_pool:
  "assignAccessCodes n sel [] = Inl (LambdaError 500 ''ACCESS_CODE_POOL_EMPTY'' (PoolSize 0))"
  by (simp add: assignAccessCodes_def getAvailableAccessCodesFromDB_def getAccessCodePool_def
      getAllStackRecords_def)

lemma assignAccessCodes_auto:
  assumes "tbl \<noteq> []"
  shows "assignAccessCodes n None tbl =
           (if length (getAvailableAccessCodes tbl) < n
            then Inl (LambdaError 409 ''INSUFFICIENT_ACCESS_CODES''
                        (RequestedAvailable n (length (getAvailableAccessCodes tbl)) (length tbl)))
            else Inr (take n (getAvailableAccessCodes tbl)))"
  using assms
  by (simp add: assignAccessCodes_def getAvailableAccessCodesFromDB_def getAccessCodePool_def
      getAllStackRecords_def)

lemma assignAccessCodes_empty_selection:
  "assignAccessCodes n (Some []) tbl = assignAccessCodes n None tbl"
  by (simp add: assignAccessCodes_def Let_def split: sum.splits)

lemma assignAccessCodes_selected:
  assumes "tbl \<noteq> []" and "selected \<noteq> []"
  shows "assignAccessCodes n (Some selected) tbl =
     (if length selected \<noteq> n
      then Inl (LambdaError 400 ''ACCESS_CODE_COUNT_MISMATCH'' (SelectedCount (length selected) n))
      else if \<not> set selected \<subseteq> set (getAccessCodePool tbl)
      then Inl (LambdaError 400 ''INVALID_ACCESS_CODES''
                  (InvalidAccessCodes (filter (\<lambda>a. a \<notin> set (getAccessCodePool tbl)) selected)))
      else if \<not> set selected \<subseteq> set (getAvailableAccessCodes tbl)
      then Inl (LambdaError 409 ''ACCESS_CODES_NOT_AVAILABLE''
                  (UnavailableAccessCodes
                     (filter (\<lambda>a. a \<notin> set (getAvailableAccessCodes tbl)) selected)
                     (length (getAvailableAccessCodes tbl))))
      else if \<not> distinct selected
      then Inl (LambdaError 400 ''DUPLICATE_ACCESS_CODES'' (Duplicates (duplicatesOf selected)))
      else Inr selected)"
proof -
  have p: "getAccessCodePool tbl \<noteq> []"
    using assms(1) by (simp add: getAccessCodePool_def getAllStackRecords_def)
  have f: "(filter (\<lambda>a. a \<notin> S) selected \<noteq> []) = (\<not> set selected \<subseteq> S)" for S
    by (auto simp: filter_empty_conv)
  show ?thesis
    using assms(2) p
    by (simp add: assignAccessCodes_def getAvailableAccessCodesFromDB_def Let_def f
        duplicatesOf_empty)
qed

text \<open>
  C8, as amended. On an empty table \<^verbatim>\<open>assignAccessCodes\<close> fails with
  \<^verbatim>\<open>ACCESS_CODE_POOL_EMPTY\<close>, whatever the request. On a table with records: a
  non-empty selection is returned when its length is the count and its codes are in the
  pool, available and distinct, and is refused with one of the four selection errors
  otherwise; an empty selection is treated as no selection; and without a selection the
  call fails with \<^verbatim>\<open>INSUFFICIENT_ACCESS_CODES\<close>, carrying the requested and the available
  counts, when fewer codes than requested are available, and returns codes otherwise.
\<close>

theorem assign_validation:
  "(tbl = [] \<longrightarrow>
      assignAccessCodes n sel tbl = Inl (LambdaError 500 ''ACCESS_CODE_POOL_EMPTY'' (PoolSize 0)))
   \<and> (tbl \<noteq> [] \<longrightarrow>
        (selected \<noteq> [] \<longrightarrow>
           (if length selected = n \<and> set selected \<subseteq> set (getAccessCodePool tbl)
               \<and> set selected \<subseteq> set (getAvailableAccessCodes tbl) \<and> distinct selected
            then assignAccessCodes n (Some selected) tbl = Inr selected
            else \<exists>e. assignAccessCodes n (Some selected) tbl = Inl e \<and> invalidSelection e))
        \<and> assignAccessCodes n (Some []) tbl = assignAccessCodes n None tbl
        \<and> (length (getAvailableAccessCodes tbl) < n \<longrightarrow>
             assignAccessCodes n None tbl =
               Inl (LambdaError 409 ''INSUFFICIENT_ACCESS_CODES''
                      (RequestedAvailable n (length (getAvailableAccessCodes tbl)) (length tbl))))
        \<and> (n \<le> length (getAvailableAccessCodes tbl) \<longrightarrow>
             (\<exists>codes. assignAccessCodes n None tbl = Inr codes)))"
proof (intro conjI impI)
  assume "tbl = []"
  then show "assignAccessCodes n sel tbl =
      Inl (LambdaError 500 ''ACCESS_CODE_POOL_EMPTY'' (PoolSize 0))"
    by (simp add: assignAccessCodes_empty_pool)
next
  assume "tbl \<noteq> []" and "selected \<noteq> []"
  then show "if length selected = n \<and> set selected \<subseteq> set (getAccessCodePool tbl)
               \<and> set selected \<subseteq> set (getAvailableAccessCodes tbl) \<and> distinct selected
            then assignAccessCodes n (Some selected) tbl = Inr selected
            else \<exists>e. assignAccessCodes n (Some selected) tbl = Inl e \<and> invalidSelection e"
    by (simp add: assignAccessCodes_selected invalidSelection_def)
next
  show "assignAccessCodes n (Some []) tbl = assignAccessCodes n None tbl"
    by (rule assignAccessCodes_empty_selection)
next
  assume "tbl \<noteq> []" and "length (getAvailableAccessCodes tbl) < n"
  then show "assignAccessCodes n None tbl =
      Inl (LambdaError 409 ''INSUFFICIENT_ACCESS_CODES''
             (RequestedAvailable n (length (getAvailableAccessCodes tbl)) (length tbl)))"
    by (simp add: assignAccessCodes_auto)
next
  assume "tbl \<noteq> []" and "n \<le> length (getAvailableAccessCodes tbl)"
  then show "\<exists>codes. assignAccessCodes n None tbl = Inr codes"
    by (simp add: assignAccessCodes_auto)
qed

lemma example_pool:
  "getAccessCodePool [availableRecord codeA, linkedRecord codeB CREATE_COMPLETE] = [codeA, codeB]"
  "getAvailableAccessCodes [availableRecord codeA, linkedRecord codeB CREATE_COMPLETE] = [codeA]"
  by (simp_all add: getAccessCodePool_def getAvailableAccessCodes_def getAllStackRecords_def
      availableRecord_def linkedRecord_def)

theorem assign_validation_witness:
  "[availableRecord codeA, linkedRecord codeB CREATE_COMPLETE] \<noteq> []
   \<and> [codeA] \<noteq> [] \<and> [codeB] \<noteq> []
   \<and> assignAccessCodes 1 (Some [codeA]) [availableRecord codeA, linkedRecord codeB CREATE_COMPLETE]
       = Inr [codeA]
   \<and> map_sum invalidSelection id
        (assignAccessCodes 1 (Some [codeB])
           [availableRecord codeA, linkedRecord codeB CREATE_COMPLETE]) = Inl True
   \<and> length (getAvailableAccessCodes [availableRecord codeA, linkedRecord codeB CREATE_COMPLETE]) < 2
   \<and> assignAccessCodes 2 None [availableRecord codeA, linkedRecord codeB CREATE_COMPLETE]
       = Inl (LambdaError 409 ''INSUFFICIENT_ACCESS_CODES'' (RequestedAvailable 2 1 2))
   \<and> assignAccessCodes 1 None [] = Inl (LambdaError 500 ''ACCESS_CODE_POOL_EMPTY'' (PoolSize 0))"
proof -
  let ?tbl = "[availableRecord codeA, linkedRecord codeB CREATE_COMPLETE]"
  note d = codes_distinct
  from assign_validation [of ?tbl 1 None "[codeA]"]
  have a: "assignAccessCodes 1 (Some [codeA]) ?tbl = Inr [codeA]"
    by (simp add: example_pool)
  from assign_validation [of ?tbl 1 None "[codeB]"]
  have b: "map_sum invalidSelection id (assignAccessCodes 1 (Some [codeB]) ?tbl) = Inl True"
    using d by (auto simp: example_pool)
  from assign_validation [of ?tbl 2 None "[codeA]"]
  have c: "assignAccessCodes 2 None ?tbl =
      Inl (LambdaError 409 ''INSUFFICIENT_ACCESS_CODES'' (RequestedAvailable 2 1 2))"
    by (simp add: example_pool)
  from assign_validation [of "[]" 1 None "[codeA]"]
  have e: "assignAccessCodes 1 None [] =
      Inl (LambdaError 500 ''ACCESS_CODE_POOL_EMPTY'' (PoolSize 0))"
    by simp
  from a b c e show ?thesis
    by (simp add: example_pool)
qed

theorem assign_validation_counterexample:
  "assignAccessCodes 1 (Some []) [availableRecord codeA] = Inr [codeA]
   \<and> assignAccessCodes 1 None [] = Inl (LambdaError 500 ''ACCESS_CODE_POOL_EMPTY'' (PoolSize 0))
   \<and> assignAccessCodes 1 (Some [codeA]) [] =
       Inl (LambdaError 500 ''ACCESS_CODE_POOL_EMPTY'' (PoolSize 0))"
  by (simp add: assignAccessCodes_def getAvailableAccessCodesFromDB_def getAccessCodePool_def
      getAvailableAccessCodes_def getAllStackRecords_def availableRecord_def)

text \<open>
  C3, as amended. Without a selection, and with at least \<open>n\<close> available codes in a table
  with records, \<^verbatim>\<open>assignAccessCodes\<close> returns the first \<open>n\<close> available codes in the
  order in which the Scan returns the records. The codes are not sorted: they are the first
  \<open>n\<close> in ascending order when the Scan returns the records in ascending order of their
  codes.
\<close>

theorem auto_assignment_order:
  assumes "tbl \<noteq> []" and "n \<le> length (getAvailableAccessCodes tbl)"
  shows "assignAccessCodes n None tbl =
           Inr (take n (map guid (filter (\<lambda>record. status record = AVAILABLE) tbl)))
         \<and> (sorted (map guid tbl) \<longrightarrow>
              assignAccessCodes n None tbl = Inr (take n (sort (getAvailableAccessCodes tbl))))"
proof -
  have s: "sorted (getAvailableAccessCodes tbl)" if "sorted (map guid tbl)"
    using that unfolding getAvailableAccessCodes_def getAllStackRecords_def
    by (induction tbl) auto
  show ?thesis
    using assms
    by (auto simp: assignAccessCodes_auto s sort_key_id_if_sorted
        simp flip: getAvailableAccessCodes_def [unfolded getAllStackRecords_def])
qed

theorem auto_assignment_order_witness:
  "[availableRecord codeB, linkedRecord codeC CREATE_COMPLETE, availableRecord codeA] \<noteq> []
   \<and> 1 \<le> length (getAvailableAccessCodes
                   [availableRecord codeB, linkedRecord codeC CREATE_COMPLETE, availableRecord codeA])
   \<and> assignAccessCodes 1 None
        [availableRecord codeB, linkedRecord codeC CREATE_COMPLETE, availableRecord codeA]
       = Inr [codeB]
   \<and> sorted (map guid [availableRecord codeA, availableRecord codeB])
   \<and> assignAccessCodes 1 None [availableRecord codeA, availableRecord codeB] = Inr [codeA]"
proof -
  let ?t = "[availableRecord codeB, linkedRecord codeC CREATE_COMPLETE, availableRecord codeA]"
  let ?u = "[availableRecord codeA, availableRecord codeB]"
  have a: "getAvailableAccessCodes ?t = [codeB, codeA]"
    "getAvailableAccessCodes ?u = [codeA, codeB]"
    by (simp_all add: getAvailableAccessCodes_def getAllStackRecords_def availableRecord_def
        linkedRecord_def)
  have s: "sorted (map guid ?u)"
    by (simp add: availableRecord_def codeA_def codeB_def less_char_def)
  have o: "sort [codeA, codeB] = [codeA, codeB]"
    by (simp add: codeA_def codeB_def less_char_def)
  have f: "map guid (filter (\<lambda>record. status record = AVAILABLE) ?t) = [codeB, codeA]"
    by (simp add: availableRecord_def linkedRecord_def)
  have h: "?t \<noteq> []" "1 \<le> length (getAvailableAccessCodes ?t)"
    "?u \<noteq> []" "1 \<le> length (getAvailableAccessCodes ?u)"
    by (simp_all add: a)
  have x: "assignAccessCodes 1 None ?t = Inr [codeB]"
    using auto_assignment_order [OF h(1) h(2)] unfolding f by simp
  have "assignAccessCodes 1 None ?u = Inr (take 1 (sort (getAvailableAccessCodes ?u)))"
    using auto_assignment_order [OF h(3) h(4)] s by blast
  then have y: "assignAccessCodes 1 None ?u = Inr [codeA]"
    unfolding a o by simp
  from h x s y show ?thesis
    by blast
qed

theorem auto_assignment_order_counterexample:
  "assignAccessCodes 1 None [availableRecord codeB, availableRecord codeA] = Inr [codeB]
   \<and> take 1 (sort (getAvailableAccessCodes [availableRecord codeB, availableRecord codeA]))
       = [codeA]
   \<and> set (getAvailableAccessCodes [availableRecord codeB, availableRecord codeA])
       = set (getAvailableAccessCodes [availableRecord codeA, availableRecord codeB])
   \<and> assignAccessCodes 1 None [availableRecord codeA, availableRecord codeB] = Inr [codeA]"
proof -
  let ?t = "[availableRecord codeB, availableRecord codeA]"
  let ?u = "[availableRecord codeA, availableRecord codeB]"
  have a: "getAvailableAccessCodes ?t = [codeB, codeA]"
    "getAvailableAccessCodes ?u = [codeA, codeB]"
    by (simp_all add: getAvailableAccessCodes_def getAllStackRecords_def availableRecord_def)
  have o: "sort [codeB, codeA] = [codeA, codeB]"
    by (simp add: codeA_def codeB_def less_char_def)
  have x: "assignAccessCodes 1 None ?t = Inr [codeB]"
    by (simp add: assignAccessCodes_auto a)
  have y: "assignAccessCodes 1 None ?u = Inr [codeA]"
    by (simp add: assignAccessCodes_auto a)
  have z: "take 1 (sort (getAvailableAccessCodes ?t)) = [codeA]"
    unfolding a o by simp
  have e: "set (getAvailableAccessCodes ?t) = set (getAvailableAccessCodes ?u)"
    unfolding a by auto
  from x y z e show ?thesis
    by blast
qed

section \<open>Deploying stacks\<close>

lemma startsWith_stackNameOf: "startsWith (stackNameOf p c t i) (p @ ''-'')"
  by (simp add: startsWith_def stackNameOf_def)

lemma createOutcome_truthy: "createOutcome r = Inr sid \<Longrightarrow> sid \<noteq> []"
  by (auto simp: createOutcome_def split: sum.splits option.splits if_splits)

lemma deployOne_fails:
  assumes "createFails env i"
  shows "\<exists>msg. deployOne env p t now n i c acc w =
     (if 2 * (failedDeployments acc + 1) > n
      then Some (LambdaError 500 ''DEPLOYMENT_BATCH_FAILED''
                   (BatchCounts (successfulDeployments acc) (failedDeployments acc + 1) n msg))
      else None,
      acc\<lparr> failedDeployments := failedDeployments acc + 1,
           stacksSoFar := stacksSoFar acc @
             [\<lparr> p_stackName = stackNameOf p c t i, p_stackId = [], p_uniqueId = c,
                p_status = CREATE_FAILED, p_createdAt = now \<rparr>] \<rparr>,
      w\<lparr> calls := calls w @ [CreateStackCommand (stackNameOf p c t i)],
         table := (if resetThrows env i then table w
                   else updateStackRecord c resetUpdates now (table w)) \<rparr>)"
  using assms
  by (auto simp: deployOne_def createFails_def startsWith_stackNameOf Let_def
      split: sum.splits)

lemma deployOne_succeeds:
  assumes "\<not> createFails env i"
  shows "\<exists>sid. sid \<noteq> [] \<and> deployOne env p t now n i c acc w =
     (None,
      acc\<lparr> stacksSoFar := stacksSoFar acc @
             [\<lparr> p_stackName = stackNameOf p c t i, p_stackId = sid, p_uniqueId = c,
                p_status = CREATE_IN_PROGRESS, p_createdAt = now \<rparr>],
           successfulDeployments := successfulDeployments acc + 1 \<rparr>,
      w\<lparr> calls := calls w @ [CreateStackCommand (stackNameOf p c t i)],
         table := (if putThrows env i then table w
                   else putStackRecord
                          \<lparr> guid = c, stackArn = Some sid,
                            stackName = Some (stackNameOf p c t i), stackId = Some sid,
                            status = CREATE_IN_PROGRESS, createdAt = Some now,
                            updatedAt = now, outputs = None, lastSyncAt = None,
                            syncError = None \<rparr> (table w)) \<rparr>)"
  using assms
  by (auto simp: deployOne_def createFails_def startsWith_stackNameOf Let_def
      dest: createOutcome_truthy split: sum.splits)

text \<open>What a round leaves of the table.\<close>

lemma map_guid_putStackRecord:
  "guid rec \<in> set (map guid tbl) \<Longrightarrow> map guid (putStackRecord rec tbl) = map guid tbl"
  by (induction tbl) (auto simp: putStackRecord_def)

lemma filter_guid_updateStackRecord:
  "g \<noteq> c \<Longrightarrow> filter (\<lambda>r. guid r = g) (updateStackRecord c ups now tbl)
     = filter (\<lambda>r. guid r = g) tbl"
  by (induction tbl) (auto simp: updateStackRecord_def)

lemma filter_guid_replace:
  "g \<noteq> guid rec \<Longrightarrow>
     filter (\<lambda>r. guid r = g) (map (\<lambda>r. if guid r = guid rec then rec else r) tbl)
       = filter (\<lambda>r. guid r = g) tbl"
  by (induction tbl) auto

lemma filter_guid_putStackRecord:
  "g \<noteq> guid rec \<Longrightarrow> filter (\<lambda>r. guid r = g) (putStackRecord rec tbl)
     = filter (\<lambda>r. guid r = g) tbl"
  by (simp add: putStackRecord_def filter_guid_replace)

lemma consistent_updateStackRecord_reset:
  "consistent tbl \<Longrightarrow> consistent (updateStackRecord c resetUpdates now tbl)"
  by (auto simp: consistent_def updateStackRecord_def applyUpdates_def resetUpdates_def
      noUpdates_def applyField_def)

lemma consistent_putStackRecord:
  "consistent tbl \<Longrightarrow> status rec \<noteq> AVAILABLE \<longrightarrow> truthy (stackArn rec)
     \<Longrightarrow> consistent (putStackRecord rec tbl)"
  by (auto simp: consistent_def putStackRecord_def)

lemma deployOne_table:
  assumes "deployOne env p t now n i c acc w = (e, acc1, w1)"
  shows "c \<in> set (map guid (table w)) \<longrightarrow> map guid (table w1) = map guid (table w)"
    and "consistent (table w) \<longrightarrow> consistent (table w1)"
    and "g \<noteq> c \<longrightarrow> filter (\<lambda>r. guid r = g) (table w1) = filter (\<lambda>r. guid r = g) (table w)"
    and "syncRule w1 = syncRule w"
proof -
  show "c \<in> set (map guid (table w)) \<longrightarrow> map guid (table w1) = map guid (table w)"
  proof (cases "createFails env i")
    case True
    from deployOne_fails [OF True, of p t now n c acc w] assms show ?thesis by auto
  next
    case False
    from deployOne_succeeds [OF False, of p t now n c acc w] assms show ?thesis
      by (auto simp: map_guid_putStackRecord)
  qed
  show "consistent (table w) \<longrightarrow> consistent (table w1)"
  proof (cases "createFails env i")
    case True
    from deployOne_fails [OF True, of p t now n c acc w] assms show ?thesis
      by (auto simp: consistent_updateStackRecord_reset)
  next
    case False
    from deployOne_succeeds [OF False, of p t now n c acc w] assms show ?thesis
      by (auto simp: truthy_def intro!: consistent_putStackRecord)
  qed
  show "g \<noteq> c \<longrightarrow> filter (\<lambda>r. guid r = g) (table w1) = filter (\<lambda>r. guid r = g) (table w)"
  proof (cases "createFails env i")
    case True
    from deployOne_fails [OF True, of p t now n c acc w] assms show ?thesis
      by (auto simp: filter_guid_updateStackRecord)
  next
    case False
    from deployOne_succeeds [OF False, of p t now n c acc w] assms show ?thesis
      by (auto simp: filter_guid_putStackRecord)
  qed
  show "syncRule w1 = syncRule w"
  proof (cases "createFails env i")
    case True
    from deployOne_fails [OF True, of p t now n c acc w] assms show ?thesis by auto
  next
    case False
    from deployOne_succeeds [OF False, of p t now n c acc w] assms show ?thesis by auto
  qed
qed

lemma status_reset [simp]: "status (applyUpdates resetUpdates now r) = AVAILABLE"
  by (simp add: applyUpdates_def resetUpdates_def noUpdates_def)

lemma updateStackRecord_reset_available:
  assumes "\<forall>r \<in> set tbl. guid r = c \<longrightarrow> status r = AVAILABLE"
  shows "\<forall>r \<in> set (updateStackRecord c resetUpdates now tbl). guid r = c \<longrightarrow> status r = AVAILABLE"
  using assms by (induction tbl) (simp_all add: updateStackRecord_def)

lemma deployOne_failed_available:
  assumes d: "deployOne env p t now n i c acc w = (e, acc1, w1)"
    and f: "createFails env i"
    and a: "\<forall>r \<in> set (table w). guid r = c \<longrightarrow> status r = AVAILABLE"
  shows "\<forall>r \<in> set (table w1). guid r = c \<longrightarrow> status r = AVAILABLE"
proof -
  from deployOne_fails [OF f, of p t now n c acc w] d
  have "table w1 = (if resetThrows env i then table w
                    else updateStackRecord c resetUpdates now (table w))"
    by auto
  with a updateStackRecord_reset_available [OF a, of now] show ?thesis
    by (simp split: if_splits)
qed

text \<open>The loop: what it leaves of the table.\<close>

lemma deployLoop_table:
  "set codes \<subseteq> set (map guid (table w)) \<Longrightarrow>
     map guid (table (snd (deployLoop env p t now n i codes acc w))) = map guid (table w)"
proof (induction codes arbitrary: i acc w)
  case Nil
  then show ?case by simp
next
  case (Cons c rest)
  obtain e acc1 w1 where d: "deployOne env p t now n i c acc w = (e, acc1, w1)"
    by (cases "deployOne env p t now n i c acc w") auto
  from deployOne_table(1) [OF d] Cons.prems
  have g: "map guid (table w1) = map guid (table w)" by simp
  with Cons.prems have "set rest \<subseteq> set (map guid (table w1))" by simp
  from Cons.IH [OF this] g show ?case
    by (cases e) (simp_all add: d)
qed

lemma deployLoop_consistent:
  "consistent (table w) \<Longrightarrow> consistent (table (snd (deployLoop env p t now n i codes acc w)))"
proof (induction codes arbitrary: i acc w)
  case Nil
  then show ?case by simp
next
  case (Cons c rest)
  obtain e acc1 w1 where d: "deployOne env p t now n i c acc w = (e, acc1, w1)"
    by (cases "deployOne env p t now n i c acc w") auto
  from deployOne_table(2) [OF d] Cons.prems have "consistent (table w1)" by simp
  from Cons.IH [OF this] this show ?case
    by (cases e) (simp_all add: d)
qed

lemma deployLoop_frame:
  "g \<notin> set codes \<Longrightarrow>
     filter (\<lambda>r. guid r = g) (table (snd (deployLoop env p t now n i codes acc w)))
       = filter (\<lambda>r. guid r = g) (table w)"
proof (induction codes arbitrary: i acc w)
  case Nil
  then show ?case by simp
next
  case (Cons c rest)
  obtain e acc1 w1 where d: "deployOne env p t now n i c acc w = (e, acc1, w1)"
    by (cases "deployOne env p t now n i c acc w") auto
  from deployOne_table(3) [OF d, of g] Cons.prems
  have f: "filter (\<lambda>r. guid r = g) (table w1) = filter (\<lambda>r. guid r = g) (table w)" by simp
  from Cons.prems have "g \<notin> set rest" by simp
  from Cons.IH [OF this] f show ?case
    by (cases e) (simp_all add: d)
qed

lemma deployLoop_syncRule:
  "syncRule (snd (deployLoop env p t now n i codes acc w)) = syncRule w"
proof (induction codes arbitrary: i acc w)
  case Nil
  then show ?case by simp
next
  case (Cons c rest)
  obtain e acc1 w1 where d: "deployOne env p t now n i c acc w = (e, acc1, w1)"
    by (cases "deployOne env p t now n i c acc w") auto
  from deployOne_table(4) [OF d] Cons.IH [of "i + 1" acc1 w1] show ?case
    by (cases e) (simp_all add: d)
qed

lemma of_guid_iff:
  "(\<forall>r \<in> set tbl. guid r = g \<longrightarrow> P r) = (\<forall>r \<in> set (filter (\<lambda>r. guid r = g) tbl). P r)"
  by auto

lemma deployLoop_failed_available:
  assumes "distinct codes"
    and "\<forall>c \<in> set codes. \<forall>r \<in> set (table w). guid r = c \<longrightarrow> status r = AVAILABLE"
  shows "\<forall>k < length codes. createFails env (i + k) \<longrightarrow>
           (\<forall>r \<in> set (table (snd (deployLoop env p t now n i codes acc w))).
              guid r = codes ! k \<longrightarrow> status r = AVAILABLE)"
  using assms
proof (induction codes arbitrary: i acc w)
  case Nil
  then show ?case by simp
next
  case (Cons c rest)
  obtain e acc1 w1 where d: "deployOne env p t now n i c acc w = (e, acc1, w1)"
    by (cases "deployOne env p t now n i c acc w") auto
  let ?w' = "snd (deployLoop env p t now n i (c # rest) acc w)"
  have c: "c \<notin> set rest" and dr: "distinct rest"
    using Cons.prems(1) by simp_all
  have rest1: "\<forall>c' \<in> set rest. \<forall>r \<in> set (table w1). guid r = c' \<longrightarrow> status r = AVAILABLE"
  proof
    fix c' assume m: "c' \<in> set rest"
    with c have "c' \<noteq> c" by auto
    from deployOne_table(3) [OF d, of c'] this
    have "filter (\<lambda>r. guid r = c') (table w1) = filter (\<lambda>r. guid r = c') (table w)" by simp
    moreover from Cons.prems(2) m
    have "\<forall>r \<in> set (table w). guid r = c' \<longrightarrow> status r = AVAILABLE" by simp
    ultimately show "\<forall>r \<in> set (table w1). guid r = c' \<longrightarrow> status r = AVAILABLE"
      unfolding of_guid_iff by simp
  qed
  have head: "\<forall>r \<in> set (table ?w'). guid r = c \<longrightarrow> status r = AVAILABLE"
    if f: "createFails env i"
  proof -
    from Cons.prems(2) have "\<forall>r \<in> set (table w). guid r = c \<longrightarrow> status r = AVAILABLE"
      by simp
    from deployOne_failed_available [OF d f this]
    have a1: "\<forall>r \<in> set (table w1). guid r = c \<longrightarrow> status r = AVAILABLE" .
    have "filter (\<lambda>r. guid r = c) (table ?w') = filter (\<lambda>r. guid r = c) (table w1)"
      using deployLoop_frame [OF c, of env p t now n "i + 1" acc1 w1]
      by (cases e) (simp_all add: d)
    with a1 show ?thesis unfolding of_guid_iff by simp
  qed
  have tail: "\<forall>r \<in> set (table ?w'). guid r = rest ! k \<longrightarrow> status r = AVAILABLE"
    if k: "k < length rest" and f: "createFails env (i + Suc k)" for k
  proof (cases e)
    case None
    from Cons.IH [OF dr rest1, of "i + 1" acc1] k f show ?thesis
      by (simp add: d None)
  next
    case (Some err)
    from k have "rest ! k \<in> set rest" by simp
    with rest1 show ?thesis by (simp add: d Some)
  qed
  show ?case
  proof (intro allI impI)
    fix k assume "k < length (c # rest)" and "createFails env (i + k)"
    then show "\<forall>r \<in> set (table ?w'). guid r = (c # rest) ! k \<longrightarrow> status r = AVAILABLE"
      using head tail by (cases k) simp_all
  qed
qed

text \<open>The loop: its answer.\<close>

lemma deployOne_response:
  assumes "createStack env i = createStack env' i"
  shows "fst (deployOne env p t now n i c acc w) = fst (deployOne env' p t now n i c acc w')"
    and "fst (snd (deployOne env p t now n i c acc w))
           = fst (snd (deployOne env' p t now n i c acc w'))"
  using assms
  by (simp_all add: deployOne_def Let_def startsWith_stackNameOf split: sum.splits)

lemma deployLoop_response:
  assumes "\<forall>j. createStack env j = createStack env' j"
  shows "fst (deployLoop env p t now n i codes acc w)
           = fst (deployLoop env' p t now n i codes acc w')"
proof (induction codes arbitrary: i acc w w')
  case Nil
  then show ?case by simp
next
  case (Cons c rest)
  obtain e acc1 w1 where d: "deployOne env p t now n i c acc w = (e, acc1, w1)"
    by (cases "deployOne env p t now n i c acc w") auto
  obtain e' acc1' w1' where d': "deployOne env' p t now n i c acc w' = (e', acc1', w1')"
    by (cases "deployOne env' p t now n i c acc w'") auto
  from assms have "createStack env i = createStack env' i" by simp
  from deployOne_response [OF this, of p t now n c acc w w'] d d'
  have "e' = e" "acc1' = acc1" by simp_all
  with Cons.IH [of "i + 1" acc1 w1 w1'] show ?case
    by (cases e) (simp_all add: d d')
qed

lemma upt_first: "[i..<Suc (i + k)] = i # [Suc i..<Suc (i + k)]"
  by (subst upt_rec) simp

lemma deployLoop_aborts_iff:
  assumes "2 * failedDeployments acc \<le> n"
  shows "isl (fst (deployLoop env p t now n i codes acc w)) \<longleftrightarrow>
           2 * (failedDeployments acc
                + length (filter (createFails env) [i..<i + length codes])) > n"
  using assms
proof (induction codes arbitrary: i acc w)
  case Nil
  then show ?case by simp
next
  case (Cons c rest)
  show ?case
  proof (cases "createFails env i")
    case True
    from deployOne_fails [OF True, of p t now n c acc w]
    obtain msg acc1 w1 where d: "deployOne env p t now n i c acc w =
        (if 2 * (failedDeployments acc + 1) > n
         then Some (LambdaError 500 ''DEPLOYMENT_BATCH_FAILED''
               (BatchCounts (successfulDeployments acc) (failedDeployments acc + 1) n msg))
         else None, acc1, w1)"
      and f: "failedDeployments acc1 = failedDeployments acc + 1"
      by auto
    show ?thesis
    proof (cases "2 * (failedDeployments acc + 1) > n")
      case True
      with \<open>createFails env i\<close> show ?thesis
        by (simp add: d upt_first del: upt_Suc)
    next
      case False
      then have "2 * failedDeployments acc1 \<le> n" using f by simp
      from Cons.IH [OF this, of "i + 1" w1] False \<open>createFails env i\<close> show ?thesis
        by (simp add: d f upt_first del: upt_Suc)
    qed
  next
    case False
    from deployOne_succeeds [OF False, of p t now n c acc w]
    obtain acc1 w1 where d: "deployOne env p t now n i c acc w = (None, acc1, w1)"
      and f: "failedDeployments acc1 = failedDeployments acc"
      by auto
    from Cons.prems f have "2 * failedDeployments acc1 \<le> n" by simp
    from Cons.IH [OF this, of "i + 1" w1] False show ?thesis
      by (simp add: d f upt_first del: upt_Suc)
  qed
qed

lemma deployLoop_outcomes:
  assumes "fst (deployLoop env p t now n i codes acc w) = Inr acc'"
  shows "map p_uniqueId (stacksSoFar acc') = map p_uniqueId (stacksSoFar acc) @ codes
       \<and> map p_status (stacksSoFar acc') = map p_status (stacksSoFar acc) @
           map (\<lambda>j. if createFails env j then CREATE_FAILED else CREATE_IN_PROGRESS)
             [i..<i + length codes]
       \<and> successfulDeployments acc' = successfulDeployments acc
           + length (filter (\<lambda>j. \<not> createFails env j) [i..<i + length codes])
       \<and> length (calls (snd (deployLoop env p t now n i codes acc w)))
           = length (calls w) + length codes"
  using assms
proof (induction codes arbitrary: i acc w)
  case Nil
  then show ?case by simp
next
  case (Cons c rest)
  show ?case
  proof (cases "createFails env i")
    case True
    from deployOne_fails [OF True, of p t now n c acc w]
    obtain e acc1 w1 where d: "deployOne env p t now n i c acc w = (e, acc1, w1)"
      and a: "map p_uniqueId (stacksSoFar acc1) = map p_uniqueId (stacksSoFar acc) @ [c]"
        "map p_status (stacksSoFar acc1) = map p_status (stacksSoFar acc) @ [CREATE_FAILED]"
        "successfulDeployments acc1 = successfulDeployments acc"
        "length (calls w1) = length (calls w) + 1"
      by auto
    from Cons.prems d have e: "e = None" by (cases e) simp_all
    from Cons.prems have "fst (deployLoop env p t now n (i + 1) rest acc1 w1) = Inr acc'"
      by (simp add: d e)
    from Cons.IH [OF this] True show ?thesis
      by (simp add: d e a upt_first del: upt_Suc)
  next
    case False
    from deployOne_succeeds [OF False, of p t now n c acc w]
    obtain acc1 w1 where d: "deployOne env p t now n i c acc w = (None, acc1, w1)"
      and a: "map p_uniqueId (stacksSoFar acc1) = map p_uniqueId (stacksSoFar acc) @ [c]"
        "map p_status (stacksSoFar acc1) = map p_status (stacksSoFar acc) @ [CREATE_IN_PROGRESS]"
        "successfulDeployments acc1 = successfulDeployments acc + 1"
        "length (calls w1) = length (calls w) + 1"
      by auto
    from Cons.prems have "fst (deployLoop env p t now n (i + 1) rest acc1 w1) = Inr acc'"
      by (simp add: d)
    from Cons.IH [OF this] False show ?thesis
      by (simp add: d a upt_first del: upt_Suc)
  qed
qed

lemma deployLoop_abort:
  assumes "fst (deployLoop env p t now n i codes acc w) = Inl e"
  shows "\<exists>s f msg. e = LambdaError 500 ''DEPLOYMENT_BATCH_FAILED'' (BatchCounts s f n msg)
       \<and> 2 * f > n
       \<and> length (calls (snd (deployLoop env p t now n i codes acc w)))
            + successfulDeployments acc + failedDeployments acc = length (calls w) + s + f
       \<and> s + f \<le> successfulDeployments acc + failedDeployments acc + length codes"
  using assms
proof (induction codes arbitrary: i acc w)
  case Nil
  then show ?case by simp
next
  case (Cons c rest)
  show ?case
  proof (cases "createFails env i")
    case True
    from deployOne_fails [OF True, of p t now n c acc w]
    obtain msg acc1 w1 where d: "deployOne env p t now n i c acc w =
        (if 2 * (failedDeployments acc + 1) > n
         then Some (LambdaError 500 ''DEPLOYMENT_BATCH_FAILED''
               (BatchCounts (successfulDeployments acc) (failedDeployments acc + 1) n msg))
         else None, acc1, w1)"
      and a: "failedDeployments acc1 = failedDeployments acc + 1"
        "successfulDeployments acc1 = successfulDeployments acc"
        "length (calls w1) = length (calls w) + 1"
      by auto
    show ?thesis
    proof (cases "2 * (failedDeployments acc + 1) > n")
      case True
      with Cons.prems d a show ?thesis by auto
    next
      case False
      with Cons.prems have "fst (deployLoop env p t now n (i + 1) rest acc1 w1) = Inl e"
        by (simp add: d)
      from Cons.IH [OF this] False show ?thesis
        by (auto simp: d a)
    qed
  next
    case False
    from deployOne_succeeds [OF False, of p t now n c acc w]
    obtain acc1 w1 where d: "deployOne env p t now n i c acc w = (None, acc1, w1)"
      and a: "failedDeployments acc1 = failedDeployments acc"
        "successfulDeployments acc1 = successfulDeployments acc + 1"
        "length (calls w1) = length (calls w) + 1"
      by auto
    from Cons.prems have "fst (deployLoop env p t now n (i + 1) rest acc1 w1) = Inl e"
      by (simp add: d)
    from Cons.IH [OF this] show ?thesis
      by (auto simp: d a)
  qed
qed

text \<open>What \<^verbatim>\<open>assignAccessCodes\<close> returns.\<close>

lemma distinct_getAvailableAccessCodes:
  "distinct (map guid tbl) \<Longrightarrow> distinct (getAvailableAccessCodes tbl)"
  by (simp add: getAvailableAccessCodes_def getAllStackRecords_def distinct_map_filter)

lemma assignAccessCodes_result:
  assumes "assignAccessCodes n sel tbl = Inr assigned"
  shows "length assigned = n"
    and "set assigned \<subseteq> set (getAvailableAccessCodes tbl)"
    and "distinct (map guid tbl) \<longrightarrow> distinct assigned"
proof -
  from assms have ne: "tbl \<noteq> []"
    by (cases tbl) (simp_all add: assignAccessCodes_empty_pool)
  consider (auto) "sel = None \<or> sel = Some []" | (chosen) xs where "sel = Some xs" "xs \<noteq> []"
    by (cases sel) auto
  then have "length assigned = n \<and> set assigned \<subseteq> set (getAvailableAccessCodes tbl)
      \<and> (distinct (map guid tbl) \<longrightarrow> distinct assigned)"
  proof cases
    case auto
    with assms have "assignAccessCodes n None tbl = Inr assigned"
      by (auto simp: assignAccessCodes_empty_selection)
    then show ?thesis
      using ne
      by (auto simp: assignAccessCodes_auto distinct_getAvailableAccessCodes
          split: if_splits dest: in_set_takeD)
  next
    case chosen
    with assms ne show ?thesis
      by (simp add: assignAccessCodes_selected split: if_splits)
  qed
  then show "length assigned = n"
    and "set assigned \<subseteq> set (getAvailableAccessCodes tbl)"
    and "distinct (map guid tbl) \<longrightarrow> distinct assigned"
    by simp_all
qed

lemma available_unique:
  assumes "distinct (map guid tbl)" and "c \<in> set (getAvailableAccessCodes tbl)"
  shows "\<forall>r \<in> set tbl. guid r = c \<longrightarrow> status r = AVAILABLE"
proof (intro ballI impI)
  fix r assume r: "r \<in> set tbl" "guid r = c"
  from assms(2) obtain r' where r': "r' \<in> set tbl" "guid r' = c" "status r' = AVAILABLE"
    by (auto simp: getAvailableAccessCodes_def getAllStackRecords_def)
  from assms(1) r r' have "r = r'"
    by (auto simp: distinct_map dest: inj_onD)
  with r' show "status r = AVAILABLE" by simp
qed

text \<open>\<^verbatim>\<open>deployStacks\<close> after its validations.\<close>

lemma table_manageRuleBasedOnStackCount [simp]:
  "table (manageRuleBasedOnStackCount env w) = table w"
  by (simp add: manageRuleBasedOnStackCount_def getCurrentRuleState_def enableSyncRule_def
      disableSyncRule_def Let_def)

lemma deployStacks_validated:
  assumes "validateStackCount config count = None"
    and "validateTemplateUrl (urlProtocol env) (templateUrl config) = None"
    and "assignAccessCodes (nat count) sel (table w) = Inr assigned"
  shows "\<exists>p. deployStacks env config ts now count sel w =
     (case deployLoop env p ts now (nat count) 0 assigned
             \<lparr> stacksSoFar = [], successfulDeployments = 0, failedDeployments = 0 \<rparr> w of
        (Inl e, w1) \<Rightarrow> (Inl e, w1)
      | (Inr acc, w1) \<Rightarrow>
          (Inr \<lparr> deployedStacks = stacksSoFar acc, assignedAccessCodes = assigned \<rparr>,
           if successfulDeployments acc > 0
           then manageRuleBasedOnStackCount (ruleOracle env) w1 else w1))"
  using assms
  by (intro exI [of _ "case stackNamePrefix config of None \<Rightarrow> ''deployment-stack''
        | Some p \<Rightarrow> if p = [] then ''deployment-stack'' else p"])
    (simp add: deployStacks_def Let_def)

lemma length_filter_map: "length (filter P (map f xs)) = length (filter (\<lambda>x. P (f x)) xs)"
  by (induction xs) simp_all

lemma upt_ten: "[0..<10] = [0, 1, 2, 3, 4, 5, 6, 7, 8, 9 :: nat]"
  by (simp add: upt_rec)

lemma deployStacks_contained:
  assumes vc: "validateStackCount config count = None"
    and vu: "validateTemplateUrl (urlProtocol env) (templateUrl config) = None"
    and asg: "assignAccessCodes (nat count) sel (table w) = Inr assigned"
    and di: "distinct (map guid (table w))"
  shows "((\<exists>e. fst (deployStacks env config ts now count sel w) = Inl e)
            \<longleftrightarrow> 2 * failuresBefore env (nat count) > nat count)"
    and "\<forall>e. fst (deployStacks env config ts now count sel w) = Inl e \<longrightarrow>
           (\<exists>s f msg. e = LambdaError 500 ''DEPLOYMENT_BATCH_FAILED''
                            (BatchCounts s f (nat count) msg)
              \<and> 2 * f > nat count \<and> s + f \<le> nat count
              \<and> length (calls (snd (deployStacks env config ts now count sel w)))
                  = length (calls w) + s + f)"
    and "\<forall>resp. fst (deployStacks env config ts now count sel w) = Inr resp \<longrightarrow>
           assignedAccessCodes resp = assigned
           \<and> map p_uniqueId (deployedStacks resp) = assigned
           \<and> map p_status (deployedStacks resp) =
               map (\<lambda>j. if createFails env j then CREATE_FAILED else CREATE_IN_PROGRESS)
                 [0..<nat count]"
    and "\<forall>j < nat count. createFails env j \<longrightarrow>
           assigned ! j \<in> set (map guid (table (snd (deployStacks env config ts now count sel w))))
           \<and> (\<forall>r \<in> set (table (snd (deployStacks env config ts now count sel w))).
                 guid r = assigned ! j \<longrightarrow> status r = AVAILABLE)"
proof -
  let ?acc0 = "\<lparr> stacksSoFar = [], successfulDeployments = 0, failedDeployments = 0 \<rparr>"
  let ?D = "deployStacks env config ts now count sel w"
  from deployStacks_validated [OF vc vu asg, of ts now] obtain p where
    D: "?D = (case deployLoop env p ts now (nat count) 0 assigned ?acc0 w of
        (Inl e, w1) \<Rightarrow> (Inl e, w1)
      | (Inr acc, w1) \<Rightarrow>
          (Inr \<lparr> deployedStacks = stacksSoFar acc, assignedAccessCodes = assigned \<rparr>,
           if successfulDeployments acc > 0
           then manageRuleBasedOnStackCount (ruleOracle env) w1 else w1))"
    by blast
  let ?L = "deployLoop env p ts now (nat count) 0 assigned ?acc0 w"
  note res = assignAccessCodes_result [OF asg]
  have len: "length assigned = nat count" by (rule res(1))
  have dis: "distinct assigned" using res(3) di by simp
  have tbl: "table (snd ?D) = table (snd ?L)"
    unfolding D by (cases ?L; cases "fst ?L") (auto split: sum.splits)
  have isl: "(\<exists>e. fst ?D = Inl e) = isl (fst ?L)"
    unfolding D by (cases ?L; cases "fst ?L") (auto split: sum.splits)
  from deployLoop_aborts_iff [of ?acc0 "nat count" env p ts now 0 assigned w]
  show "(\<exists>e. fst ?D = Inl e) \<longleftrightarrow> 2 * failuresBefore env (nat count) > nat count"
    unfolding isl by (simp add: failuresBefore_def len)
  show "\<forall>e. fst ?D = Inl e \<longrightarrow>
           (\<exists>s f msg. e = LambdaError 500 ''DEPLOYMENT_BATCH_FAILED''
                            (BatchCounts s f (nat count) msg)
              \<and> 2 * f > nat count \<and> s + f \<le> nat count
              \<and> length (calls (snd ?D)) = length (calls w) + s + f)"
  proof (intro allI impI)
    fix e assume e: "fst ?D = Inl e"
    then have l: "fst ?L = Inl e" and c: "calls (snd ?D) = calls (snd ?L)"
      unfolding D by (cases ?L; cases "fst ?L"; auto split: sum.splits)+
    from deployLoop_abort [OF l] show "\<exists>s f msg. e = LambdaError 500 ''DEPLOYMENT_BATCH_FAILED''
                            (BatchCounts s f (nat count) msg)
              \<and> 2 * f > nat count \<and> s + f \<le> nat count
              \<and> length (calls (snd ?D)) = length (calls w) + s + f"
      unfolding c by (auto simp: len)
  qed
  show "\<forall>resp. fst ?D = Inr resp \<longrightarrow>
           assignedAccessCodes resp = assigned
           \<and> map p_uniqueId (deployedStacks resp) = assigned
           \<and> map p_status (deployedStacks resp) =
               map (\<lambda>j. if createFails env j then CREATE_FAILED else CREATE_IN_PROGRESS)
                 [0..<nat count]"
  proof (intro allI impI)
    fix resp assume r: "fst ?D = Inr resp"
    then obtain acc where l: "fst ?L = Inr acc"
      and rr: "resp = \<lparr> deployedStacks = stacksSoFar acc, assignedAccessCodes = assigned \<rparr>"
      unfolding D by (cases ?L; cases "fst ?L"; auto split: sum.splits)
    from deployLoop_outcomes [OF l] show "assignedAccessCodes resp = assigned
           \<and> map p_uniqueId (deployedStacks resp) = assigned
           \<and> map p_status (deployedStacks resp) =
               map (\<lambda>j. if createFails env j then CREATE_FAILED else CREATE_IN_PROGRESS)
                 [0..<nat count]"
      by (simp add: rr len)
  qed
  have av: "\<forall>c \<in> set assigned. \<forall>r \<in> set (table w). guid r = c \<longrightarrow> status r = AVAILABLE"
    using available_unique [OF di] res(2) by blast
  have sub: "set assigned \<subseteq> set (map guid (table w))"
    using res(2) getAvailableAccessCodes_subset [of "table w"]
    by (auto simp: getAccessCodePool_def getAllStackRecords_def)
  from deployLoop_failed_available [OF dis av, of env 0 p ts now "nat count" ?acc0]
    deployLoop_table [OF sub, of env p ts now "nat count" 0 ?acc0] sub
  show "\<forall>j < nat count. createFails env j \<longrightarrow>
           assigned ! j \<in> set (map guid (table (snd ?D)))
           \<and> (\<forall>r \<in> set (table (snd ?D)). guid r = assigned ! j \<longrightarrow> status r = AVAILABLE)"
    unfolding tbl len by (auto simp: len)
qed

lemma lastFiveFail_fails: "createFails lastFiveFail j = (5 \<le> j)"
  by (simp add: createFails_def lastFiveFail_def createOutcome_def)

lemma deployStacks_Inr:
  assumes "fst (deployStacks env config ts now count sel w) = Inr resp"
  shows "\<exists>p assigned acc.
           fst (deployLoop env p ts now (nat count) 0 assigned
                  \<lparr> stacksSoFar = [], successfulDeployments = 0, failedDeployments = 0 \<rparr> w)
             = Inr acc
           \<and> deployedStacks resp = stacksSoFar acc \<and> assignedAccessCodes resp = assigned
           \<and> assignAccessCodes (nat count) sel (table w) = Inr assigned"
proof -
  from assms have vc: "validateStackCount config count = None"
    by (cases "validateStackCount config count") (simp_all add: deployStacks_def)
  from assms vc have vu: "validateTemplateUrl (urlProtocol env) (templateUrl config) = None"
    by (cases "validateTemplateUrl (urlProtocol env) (templateUrl config)")
      (simp_all add: deployStacks_def)
  from assms vc vu obtain assigned where
    asg: "assignAccessCodes (nat count) sel (table w) = Inr assigned"
    by (cases "assignAccessCodes (nat count) sel (table w)") (simp_all add: deployStacks_def)
  from deployStacks_validated [OF vc vu asg, of ts now] obtain p where
    D: "deployStacks env config ts now count sel w =
      (case deployLoop env p ts now (nat count) 0 assigned
             \<lparr> stacksSoFar = [], successfulDeployments = 0, failedDeployments = 0 \<rparr> w of
        (Inl e, w1) \<Rightarrow> (Inl e, w1)
      | (Inr acc, w1) \<Rightarrow>
          (Inr \<lparr> deployedStacks = stacksSoFar acc, assignedAccessCodes = assigned \<rparr>,
           if successfulDeployments acc > 0
           then manageRuleBasedOnStackCount (ruleOracle env) w1 else w1))"
    by blast
  let ?L = "deployLoop env p ts now (nat count) 0 assigned
             \<lparr> stacksSoFar = [], successfulDeployments = 0, failedDeployments = 0 \<rparr> w"
  from assms obtain acc where "fst ?L = Inr acc"
    and "resp = \<lparr> deployedStacks = stacksSoFar acc, assignedAccessCodes = assigned \<rparr>"
    unfolding D by (cases ?L; cases "fst ?L"; auto split: sum.splits)
  with asg show ?thesis by auto
qed

text \<open>
  C10. The answer of \<^verbatim>\<open>deployStacks\<close> does not depend on whether its writes to the table
  throw: it is the same under any other oracle for PutItem and UpdateItem, and every
  creation that did not fail is reported as \<open>CREATE_IN_PROGRESS\<close>. Likewise the answer of
  \<^verbatim>\<open>deleteStackByAccessCode\<close> does not depend on whether its UpdateItem throws, and is
  \<open>success = True\<close> whenever DeleteStack succeeded.
\<close>

theorem store_writes_advisory:
  "fst (deployStacks (env\<lparr> putThrows := pt, resetThrows := rt \<rparr>) config ts now count sel w)
     = fst (deployStacks env config ts now count sel w)
   \<and> (\<forall>resp j. fst (deployStacks env config ts now count sel w) = Inr resp
          \<and> j < length (deployedStacks resp) \<and> \<not> createFails env j
        \<longrightarrow> p_status (deployedStacks resp ! j) = CREATE_IN_PROGRESS)
   \<and> fst (deleteStackByAccessCode (denv\<lparr> updateThrows := ut \<rparr>) now c w)
       = fst (deleteStackByAccessCode denv now c w)
   \<and> (\<forall>stack. findStackByAccessCode now c (table w) = Inr (Some stack)
          \<and> s_status stack \<noteq> DELETE_IN_PROGRESS \<and> s_status stack \<notin> set inProgressStates
          \<and> deleteStack denv (s_stackName stack) = None
        \<longrightarrow> fst (deleteStackByAccessCode denv now c w)
              = Inr \<lparr> success = True, deletionStatus = DELETE_IN_PROGRESS \<rparr>)"
proof (intro conjI allI impI)
  let ?env' = "env\<lparr> putThrows := pt, resetThrows := rt \<rparr>"
  have l: "fst (deployLoop ?env' p ts now n 0 codes acc w)
             = fst (deployLoop env p ts now n 0 codes acc w)" for p n codes acc
    by (rule deployLoop_response) simp
  show "fst (deployStacks ?env' config ts now count sel w)
          = fst (deployStacks env config ts now count sel w)"
    unfolding deployStacks_def Let_def
    by (auto split: option.splits sum.splits prod.splits
        dest: arg_cong [where f = fst, OF sym] simp: l [symmetric])
next
  fix resp j
  assume a: "fst (deployStacks env config ts now count sel w) = Inr resp
          \<and> j < length (deployedStacks resp) \<and> \<not> createFails env j"
  with deployStacks_Inr [of env config ts now count sel w resp] obtain p assigned acc where
    "fst (deployLoop env p ts now (nat count) 0 assigned
           \<lparr> stacksSoFar = [], successfulDeployments = 0, failedDeployments = 0 \<rparr> w) = Inr acc"
    and r: "deployedStacks resp = stacksSoFar acc"
    by blast
  from deployLoop_outcomes [OF this(1)] r
  have m: "map p_status (deployedStacks resp) =
      map (\<lambda>j. if createFails env j then CREATE_FAILED else CREATE_IN_PROGRESS)
        [0..<length assigned]"
    by simp
  from a have j: "j < length (map p_status (deployedStacks resp))" by simp
  then have "map p_status (deployedStacks resp) ! j = p_status (deployedStacks resp ! j)"
    by simp
  with j a show "p_status (deployedStacks resp ! j) = CREATE_IN_PROGRESS"
    unfolding m by simp
next
  show "fst (deleteStackByAccessCode (denv\<lparr> updateThrows := ut \<rparr>) now c w)
       = fst (deleteStackByAccessCode denv now c w)"
    by (simp add: deleteStackByAccessCode_def Let_def split: sum.splits option.splits)
next
  fix stack
  assume "findStackByAccessCode now c (table w) = Inr (Some stack)
          \<and> s_status stack \<noteq> DELETE_IN_PROGRESS \<and> s_status stack \<notin> set inProgressStates
          \<and> deleteStack denv (s_stackName stack) = None"
  then show "fst (deleteStackByAccessCode denv now c w)
              = Inr \<lparr> success = True, deletionStatus = DELETE_IN_PROGRESS \<rparr>"
    by (simp add: deleteStackByAccessCode_def Let_def)
qed

theorem store_writes_advisory_witness:
  "putThrows (lastFiveFail\<lparr> putThrows := (\<lambda>i. True), resetThrows := (\<lambda>i. True) \<rparr>) 0
   \<and> \<not> createFails (lastFiveFail\<lparr> putThrows := (\<lambda>i. True), resetThrows := (\<lambda>i. True) \<rparr>) 0
   \<and> (\<exists>resp. fst (deployStacks
                     (lastFiveFail\<lparr> putThrows := (\<lambda>i. True), resetThrows := (\<lambda>i. True) \<rparr>)
                     plainConfig 1700000000000 ''t1'' 1 None (worldOf [availableRecord codeA]))
               = Inr resp
        \<and> length (deployedStacks resp) = 1
        \<and> p_status (deployedStacks resp ! 0) = CREATE_IN_PROGRESS)
   \<and> updateThrows (quietDelete\<lparr> updateThrows := (\<lambda>c. True) \<rparr>) codeA
   \<and> fst (deleteStackByAccessCode (quietDelete\<lparr> updateThrows := (\<lambda>c. True) \<rparr>) ''t1'' codeA
            (worldOf [linkedRecord codeA CREATE_COMPLETE]))
       = Inr \<lparr> success = True, deletionStatus = DELETE_IN_PROGRESS \<rparr>"
proof -
  let ?E = "lastFiveFail\<lparr> putThrows := (\<lambda>i. True), resetThrows := (\<lambda>i. True) \<rparr>"
  let ?w = "worldOf [availableRecord codeA]"
  let ?D = "deployStacks ?E plainConfig 1700000000000 ''t1'' 1 None ?w"
  let ?N = "quietDelete\<lparr> updateThrows := (\<lambda>c. True) \<rparr>"
  let ?v = "worldOf [linkedRecord codeA CREATE_COMPLETE]"
  have cf: "createFails ?E j = (5 \<le> j)" for j
    by (simp add: createFails_def lastFiveFail_def createOutcome_def)
  have a: "getAvailableAccessCodes (table ?w) = [codeA]" and ne: "table ?w \<noteq> []"
    by (simp_all add: worldOf_def getAvailableAccessCodes_def getAllStackRecords_def
        availableRecord_def)
  have h1: "validateStackCount plainConfig 1 = None"
    by (simp add: validateStackCount_def plainConfig_def)
  have h2: "validateTemplateUrl (urlProtocol ?E) (templateUrl plainConfig) = None"
    by (simp add: validateTemplateUrl_def plainConfig_def lastFiveFail_def)
  have h3: "assignAccessCodes (nat 1) None (table ?w) = Inr [codeA]"
    using ne by (simp add: assignAccessCodes_auto a)
  have h4: "distinct (map guid (table ?w))"
    by (simp add: worldOf_def)
  note c = deployStacks_contained [OF h1 h2 h3 h4, of 1700000000000 "''t1''"]
  have "failuresBefore ?E 1 = 0"
    by (simp add: failuresBefore_def cf)
  with c(1) have "\<not> (\<exists>e. fst ?D = Inl e)" by simp
  then obtain resp where r: "fst ?D = Inr resp"
    by (cases "fst ?D") auto
  with c(3) have "map p_uniqueId (deployedStacks resp) = [codeA]" by blast
  then have len: "length (deployedStacks resp) = 1"
    by (metis length_map length_Cons list.size(3) One_nat_def)
  from store_writes_advisory [where env = "?E" and config = plainConfig
      and ts = 1700000000000 and now = "''t1''" and count = 1 and sel = None and w = "?w"]
    r len cf [of 0]
  have s: "p_status (deployedStacks resp ! 0) = CREATE_IN_PROGRESS"
    by auto
  have f: "findStackByAccessCode ''t1'' codeA (table ?v)
             = Inr (Some (toActiveStack ''t1'' (linkedRecord codeA CREATE_COMPLETE)))"
    using uuid_codeA
    by (simp add: findStackByAccessCode_def validateAccessCode_iff getStackRecord_def
        worldOf_def linkedRecord_def truthy_def)
  have t: "s_status (toActiveStack ''t1'' (linkedRecord codeA CREATE_COMPLETE)) = CREATE_COMPLETE"
    by (simp add: toActiveStack_def linkedRecord_def)
  from store_writes_advisory [where denv = "?N" and now = "''t1''" and c = codeA
      and w = "?v"] f t
  have d: "fst (deleteStackByAccessCode ?N ''t1'' codeA ?v)
             = Inr \<lparr> success = True, deletionStatus = DELETE_IN_PROGRESS \<rparr>"
    by (simp add: inProgressStates_def quietDelete_def)
  from r len s d cf [of 0] show ?thesis
    by auto
qed

section \<open>The rounds of a pass\<close>

lemma syncStackRecord_table:
  "table (snd (syncStackRecord env now record w)) =
     (case syncWritten env now record of
        None \<Rightarrow> table w
      | Some ups \<Rightarrow> updateStackRecord (guid record) ups now (table w))"
  by (simp add: syncStackRecord_def syncWritten_def writeSync_def recordSyncError_def Let_def
      split: option.splits sum.splits)

lemma syncStackRecord_syncRule [simp]:
  "syncRule (snd (syncStackRecord env now record w)) = syncRule w"
  by (simp add: syncStackRecord_def writeSync_def recordSyncError_def Let_def
      split: option.splits sum.splits)

lemma syncStackRecord_calls:
  "calls (snd (syncStackRecord env now record w)) =
     calls w @ (case stackArn record of
                  None \<Rightarrow> []
                | Some arn \<Rightarrow> if arn = [] then [] else [DescribeStacksCommand arn])"
  by (simp add: syncStackRecord_def writeSync_def recordSyncError_def Let_def
      split: option.splits sum.splits)

lemma guid_syncedRecord [simp]: "guid (syncedRecord env now r) = guid r"
  by (simp add: syncedRecord_def split: option.splits)

lemma syncOne_world: "snd (syncOne env now acc record) = snd (syncStackRecord env now record (snd acc))"
  by (simp add: syncOne_def Let_def)

lemma same_guid_same_record:
  "distinct (map guid tbl) \<Longrightarrow> r \<in> set tbl \<Longrightarrow> r' \<in> set tbl \<Longrightarrow> guid r = guid r' \<Longrightarrow> r = r'"
  by (auto simp: distinct_map dest: inj_onD)

lemma syncStackRecord_table_map:
  assumes "distinct (map guid (table w))" and "record \<in> set (table w)"
  shows "table (snd (syncStackRecord env now record w)) =
           map (\<lambda>r. if guid r = guid record then syncedRecord env now r else r) (table w)"
proof -
  have same: "r = record" if "r \<in> set (table w)" "guid r = guid record" for r
    using same_guid_same_record [OF assms(1) that(1) assms(2)] that(2) by simp
  show ?thesis
  proof (cases "syncWritten env now record")
    case None
    have "map (\<lambda>r. if guid r = guid record then syncedRecord env now r else r) (table w)
            = map (\<lambda>r. r) (table w)"
      by (intro map_cong) (auto simp: syncedRecord_def None dest: same)
    with None show ?thesis
      by (simp add: syncStackRecord_table)
  next
    case (Some ups)
    have "map (\<lambda>r. if guid r = guid record then syncedRecord env now r else r) (table w)
            = map (\<lambda>r. if guid r = guid record then applyUpdates ups now r else r) (table w)"
      by (intro map_cong) (auto simp: syncedRecord_def Some dest: same)
    with Some show ?thesis
      by (simp add: syncStackRecord_table updateStackRecord_def)
  qed
qed

lemma sync_fold_table:
  assumes "distinct (map guid (table w))" and "set recs \<subseteq> set (table w)"
    and "distinct (map guid recs)"
  shows "table (snd (foldl (syncOne env now) (res, w) recs)) =
           map (\<lambda>r. if guid r \<in> set (map guid recs) then syncedRecord env now r else r)
             (table w)"
  using assms
proof (induction recs arbitrary: res w)
  case Nil
  then show ?case by simp
next
  case (Cons rec rest)
  let ?s = "syncOne env now (res, w) rec"
  let ?w1 = "snd ?s"
  have m: "rec \<in> set (table w)" using Cons.prems(2) by simp
  have t1: "table ?w1 =
      map (\<lambda>r. if guid r = guid rec then syncedRecord env now r else r) (table w)"
    using syncStackRecord_table_map [OF Cons.prems(1) m] by (simp add: syncOne_world)
  have g1: "map guid (table ?w1) = map guid (table w)"
    unfolding t1 by (simp add: comp_def)
  have d1: "distinct (map guid (table ?w1))"
    unfolding g1 by (rule Cons.prems(1))
  have nr: "guid rec \<notin> set (map guid rest)" and dr: "distinct (map guid rest)"
    using Cons.prems(3) by simp_all
  have s1: "set rest \<subseteq> set (table ?w1)"
  proof
    fix r assume r: "r \<in> set rest"
    then have "guid r \<in> set (map guid rest)" by simp
    with nr have "guid r \<noteq> guid rec" by metis
    moreover from r Cons.prems(2) have "r \<in> set (table w)" by auto
    ultimately show "r \<in> set (table ?w1)"
      unfolding t1 by (auto simp: image_iff intro!: bexI [of _ r])
  qed
  have "foldl (syncOne env now) (res, w) (rec # rest) =
          foldl (syncOne env now) (fst ?s, ?w1) rest"
    by simp
  then have "table (snd (foldl (syncOne env now) (res, w) (rec # rest))) =
      map (\<lambda>r. if guid r \<in> set (map guid rest) then syncedRecord env now r else r) (table ?w1)"
    using Cons.IH [OF d1 s1 dr, of "fst ?s"] by simp
  also have "\<dots> = map (\<lambda>r. if guid r \<in> set (map guid (rec # rest))
                               then syncedRecord env now r else r) (table w)"
    unfolding t1 using nr by (auto simp: comp_def)
  finally show ?case .
qed

lemma table_ensureRuleDisabled [simp]: "table (ensureRuleDisabled env w) = table w"
  by (simp add: ensureRuleDisabled_def getCurrentRuleState_def disableSyncRule_def Let_def)

lemma table_afterSync [simp]: "table (afterSync env w) = table w"
  by (simp add: afterSync_def)

lemma syncAllStacks_table:
  assumes "distinct (map guid (table w))"
  shows "table (snd (syncAllStacks env now w)) =
           map (\<lambda>r. if status r \<noteq> AVAILABLE then syncedRecord env now r else r) (table w)"
proof -
  let ?recs = "getNonAvailableStackRecords (table w)"
  have s: "set ?recs \<subseteq> set (table w)" and d: "distinct (map guid ?recs)"
    using assms
    by (auto simp: getNonAvailableStackRecords_def getAllStackRecords_def distinct_map_filter)
  have c: "(guid r \<in> set (map guid ?recs)) = (status r \<noteq> AVAILABLE)" if "r \<in> set (table w)" for r
  proof
    assume "guid r \<in> set (map guid ?recs)"
    then obtain r' where "r' \<in> set (table w)" "status r' \<noteq> AVAILABLE" "guid r' = guid r"
      by (auto simp: getNonAvailableStackRecords_def getAllStackRecords_def)
    with same_guid_same_record [OF assms that, of r'] show "status r \<noteq> AVAILABLE" by auto
  next
    assume "status r \<noteq> AVAILABLE"
    with that show "guid r \<in> set (map guid ?recs)"
      by (auto simp: getNonAvailableStackRecords_def getAllStackRecords_def)
  qed
  have "table (snd (syncAllStacks env now w)) =
      map (\<lambda>r. if guid r \<in> set (map guid ?recs) then syncedRecord env now r else r) (table w)"
  proof (cases "?recs = []")
    case True
    then show ?thesis by (simp add: syncAllStacks_def Let_def)
  next
    case False
    then show ?thesis
      using sync_fold_table [OF assms s d] by (simp add: syncAllStacks_def Let_def)
  qed
  also have "\<dots> = map (\<lambda>r. if status r \<noteq> AVAILABLE then syncedRecord env now r else r) (table w)"
  proof (intro map_cong refl)
    fix r assume "r \<in> set (table w)"
    from c [OF this]
    show "(if guid r \<in> set (map guid ?recs) then syncedRecord env now r else r) =
          (if status r \<noteq> AVAILABLE then syncedRecord env now r else r)"
      by presburger
  qed
  finally show ?thesis .
qed

text \<open>What a round writes.\<close>

lemma apply_markAvailable:
  "applyUpdates (markAvailable (noUpdates\<lparr> u_lastSyncAt := Assign now, u_syncError := Undefined \<rparr>))
     now r = resetRecord now r"
  by (simp add: applyUpdates_def markAvailable_def noUpdates_def applyField_def resetRecord_def)

lemma syncUpdates_gone:
  "status r \<noteq> AVAILABLE \<Longrightarrow>
     syncUpdates now r False None =
       (markAvailable (noUpdates\<lparr> u_lastSyncAt := Assign now, u_syncError := Undefined \<rparr>), True)"
  "StackStatus st = DELETE_COMPLETE \<Longrightarrow>
     syncUpdates now r True (Some st) =
       (markAvailable (noUpdates\<lparr> u_lastSyncAt := Assign now, u_syncError := Undefined \<rparr>), True)"
  by (simp_all add: syncUpdates_def)

lemma syncedRecord_reset:
  assumes "stackArn r = Some arn" and "arn \<noteq> []" and "reportsGone (describeStacks env arn)"
    and "status r \<noteq> AVAILABLE" and "syncUpdateThrows env (guid r) = None"
  shows "syncedRecord env now r = resetRecord now r"
  using assms
  by (auto simp: syncedRecord_def syncWritten_def reportsGone_def syncUpdates_gone
      apply_markAvailable split: sum.splits option.splits)

text \<open>The status that the updates of a described, present stack leave.\<close>

lemma syncUpdates_status:
  assumes "StackStatus st \<noteq> DELETE_COMPLETE"
  shows "u_status (fst (syncUpdates now r True (Some st))) =
           (if status r \<noteq> StackStatus st then Some (StackStatus st) else None)"
    and "u_stackArn (fst (syncUpdates now r True (Some st))) = Absent"
    and "snd (syncUpdates now r True (Some st)) \<or> status r = StackStatus st"
  using assms by (simp_all add: syncUpdates_def Let_def noUpdates_def)

lemma syncUpdates_absent_stack:
  "syncUpdates now r True None =
     (noUpdates\<lparr> u_lastSyncAt := Assign now, u_syncError := Undefined \<rparr>, False)"
  by (simp add: syncUpdates_def)

lemma status_applyUpdates:
  "status (applyUpdates ups now r) = (case u_status ups of None \<Rightarrow> status r | Some s \<Rightarrow> s)"
  "stackArn (applyUpdates ups now r) = applyField (u_stackArn ups) (stackArn r)"
  by (simp_all add: applyUpdates_def)

lemma syncedRecord_status:
  "status (syncedRecord env now r) = status r \<and> stackArn (syncedRecord env now r) = stackArn r
   \<or> (\<exists>arn. stackArn r = Some arn \<and> arn \<noteq> [] \<and> syncUpdateThrows env (guid r) = None
        \<and> ((reportsGone (describeStacks env arn) \<and> status r \<noteq> AVAILABLE
             \<or> (\<exists>st. describeStacks env arn = Inr (Some st) \<and> StackStatus st = DELETE_COMPLETE))
            \<and> syncedRecord env now r = resetRecord now r
          \<or> (\<exists>st. describeStacks env arn = Inr (Some st) \<and> StackStatus st \<noteq> DELETE_COMPLETE
                \<and> status (syncedRecord env now r) = StackStatus st
                \<and> stackArn (syncedRecord env now r) = stackArn r)))"
proof (cases "syncWritten env now r")
  case None
  then show ?thesis by (simp add: syncedRecord_def)
next
  case (Some ups)
  note S = Some
  show ?thesis
  proof (cases "stackArn r")
    case None
    with S show ?thesis by (simp add: syncWritten_def)
  next
    case (Some arn)
    note A = Some
    show ?thesis
    proof (cases "arn = []")
      case True
      with S A show ?thesis by (simp add: syncWritten_def)
    next
      case False
      note N = False
      let ?caught = "\<lambda>m. noUpdates\<lparr> u_syncError := Assign m, u_lastSyncAt := Assign now \<rparr>"
      have caught: ?thesis if "ups = ?caught m" for m
        using that S
        by (simp add: syncedRecord_def status_applyUpdates noUpdates_def applyField_def)
      have only: ?thesis if "ups = noUpdates\<lparr> u_lastSyncAt := Assign now \<rparr>"
        using that S
        by (simp add: syncedRecord_def status_applyUpdates noUpdates_def applyField_def)
      show ?thesis
      proof (cases "syncUpdateThrows env (guid r)")
        case (Some err)
        with S A N have "\<exists>m. ups = ?caught m"
          by (auto simp: syncWritten_def Let_def split: sum.splits if_splits)
        with caught show ?thesis by blast
      next
        case None
        note U = None
        show ?thesis
        proof (cases "describeStacks env arn")
          case (Inl err)
          show ?thesis
          proof (cases "stackDoesNotExist err")
            case True
            show ?thesis
            proof (cases "status r = AVAILABLE")
              case True
              with S A N U Inl \<open>stackDoesNotExist err\<close>
              have "ups = noUpdates\<lparr> u_lastSyncAt := Assign now \<rparr>"
                by (simp add: syncWritten_def Let_def syncUpdates_def)
              with only show ?thesis by blast
            next
              case False
              with Inl True have "reportsGone (describeStacks env arn)"
                by (simp add: reportsGone_def)
              with syncedRecord_reset [OF A N this False U, of now] False A N U
              show ?thesis by blast
            qed
          next
            case False
            with S A N U Inl have "\<exists>m. ups = ?caught m"
              by (auto simp: syncWritten_def Let_def split: if_splits)
            with caught show ?thesis by blast
          qed
        next
          case (Inr stack)
          show ?thesis
          proof (cases stack)
            case None
            with S A N U Inr have "ups = noUpdates\<lparr> u_lastSyncAt := Assign now \<rparr>"
              by (simp add: syncWritten_def Let_def syncUpdates_absent_stack)
            with only show ?thesis by blast
          next
            case (Some st)
            show ?thesis
            proof (cases "StackStatus st = DELETE_COMPLETE")
              case True
              with S A N U Inr Some have "syncedRecord env now r = resetRecord now r"
                by (auto simp: syncedRecord_def syncWritten_def Let_def syncUpdates_gone
                    apply_markAvailable)
              with True A N U Inr Some show ?thesis by blast
            next
              case False
              let ?c = "syncUpdates now r True (Some st)"
              from S A N U Inr Some
              have u: "ups = (if snd ?c then fst ?c else noUpdates\<lparr> u_lastSyncAt := Assign now \<rparr>)"
                by (simp add: syncWritten_def Let_def)
              from syncUpdates_status [OF False, of now r] u
              have "status (applyUpdates ups now r) = StackStatus st"
                "stackArn (applyUpdates ups now r) = stackArn r"
                by (auto simp: status_applyUpdates noUpdates_def applyField_def split: if_splits)
              with S have "status (syncedRecord env now r) = StackStatus st"
                "stackArn (syncedRecord env now r) = stackArn r"
                by (simp_all add: syncedRecord_def)
              with False A N U Inr Some show ?thesis by blast
            qed
          qed
        qed
      qed
    qed
  qed
qed

lemma syncedRecord_consistent:
  assumes "status r \<noteq> AVAILABLE \<longrightarrow> truthy (stackArn r)"
  shows "status (syncedRecord env now r) \<noteq> AVAILABLE \<longrightarrow> truthy (stackArn (syncedRecord env now r))"
  using syncedRecord_status [of env now r] assms
  by (auto simp: resetRecord_def truthy_def)

lemma syncedRecord_available_only_by_reset:
  assumes "status r \<noteq> AVAILABLE" and "status (syncedRecord env now r) = AVAILABLE"
    and "cloudFormationStatuses env"
  shows "\<exists>arn. stackArn r = Some arn \<and> arn \<noteq> [] \<and> reportsGone (describeStacks env arn)
           \<and> syncUpdateThrows env (guid r) = None \<and> syncedRecord env now r = resetRecord now r"
proof -
  have ns: "AVAILABLE \<noteq> StackStatus st" if "describeStacks env arn = Inr (Some st)" for arn st
    using assms(3) that unfolding cloudFormationStatuses_def by metis
  from syncedRecord_status [of env now r] assms(1,2) show ?thesis
    by (auto simp: reportsGone_def dest: ns)
qed

lemma getStackRecord_distinct:
  "distinct (map guid tbl) \<Longrightarrow> r \<in> set tbl \<Longrightarrow> getStackRecord (guid r) tbl = Some r"
  by (induction tbl) (auto simp: getStackRecord_def image_iff)

lemma getStackRecord_map:
  "(\<And>r. guid (f r) = guid r) \<Longrightarrow> getStackRecord g (map f tbl) = map_option f (getStackRecord g tbl)"
  by (induction tbl) (simp_all add: getStackRecord_def)

lemma syncAllStacks_record:
  assumes "distinct (map guid (table w))" and "r \<in> set (table w)"
  shows "getStackRecord (guid r) (table (snd (syncAllStacks env now w))) =
           Some (if status r \<noteq> AVAILABLE then syncedRecord env now r else r)"
  unfolding syncAllStacks_table [OF assms(1)]
  by (subst getStackRecord_map) (simp_all add: getStackRecord_distinct [OF assms])

lemma syncAllStacks_guids:
  assumes "distinct (map guid (table w))"
  shows "map guid (table (snd (syncAllStacks env now w))) = map guid (table w)"
  unfolding syncAllStacks_table [OF assms] by (simp add: comp_def)

lemma syncAllStacks_consistent:
  assumes "distinct (map guid (table w))" and "consistent (table w)"
  shows "consistent (table (snd (syncAllStacks env now w)))"
  using assms(2) syncedRecord_consistent [of _ env now]
  unfolding syncAllStacks_table [OF assms(1)] consistent_def by auto

section \<open>The table after a deletion\<close>

lemma apply_deleting:
  "applyUpdates (noUpdates\<lparr> u_status := Some DELETE_IN_PROGRESS \<rparr>) now r
     = r\<lparr> status := DELETE_IN_PROGRESS, updatedAt := now \<rparr>"
  by (simp add: applyUpdates_def noUpdates_def applyField_def)

lemma guid_deletedRecord [simp]: "guid (deletedRecord env now r) = guid r"
  by (simp add: deletedRecord_def)

lemma deletedRecord_consistent:
  "status r \<noteq> AVAILABLE \<longrightarrow> truthy (stackArn r) \<Longrightarrow>
     status (deletedRecord env now r) \<noteq> AVAILABLE \<longrightarrow> truthy (stackArn (deletedRecord env now r))"
  by (simp add: deletedRecord_def linked_def)

lemma deletedRecord_status:
  "status (deletedRecord env now r) = AVAILABLE \<longleftrightarrow> status r = AVAILABLE"
  by (simp add: deletedRecord_def linked_def)

lemma deleteStackByAccessCode_table:
  assumes "distinct (map guid (table w))"
  shows "table (snd (deleteStackByAccessCode env now c w)) = table w
       \<or> table (snd (deleteStackByAccessCode env now c w)) =
           map (\<lambda>r. if guid r = c then deletedRecord env now r else r) (table w)"
proof (cases "findStackByAccessCode now c (table w)")
  case (Inl e)
  then show ?thesis by (simp add: deleteStackByAccessCode_def)
next
  case (Inr found)
  show ?thesis
  proof (cases found)
    case None
    with Inr show ?thesis by (simp add: deleteStackByAccessCode_def)
  next
    case (Some stack)
    with Inr obtain rd where g: "getStackRecord c (table w) = Some rd"
      and l: "linked rd" and s: "stack = toActiveStack now rd"
      by (auto simp: findStackByAccessCode_def linked_def split: if_splits option.splits)
    from g have m: "rd \<in> set (table w)" and c: "guid rd = c"
      by (auto dest: getStackRecord_mem getStackRecord_guid)
    have same: "r = rd" if "r \<in> set (table w)" "guid r = c" for r
      using same_guid_same_record [OF assms that(1) m] that(2) c by simp
    show ?thesis
    proof (cases "deletionWritten env rd")
      case True
      have "map (\<lambda>r. if guid r = c then deletedRecord env now r else r) (table w) =
          map (\<lambda>r. if guid r = c
                    then applyUpdates (noUpdates\<lparr> u_status := Some DELETE_IN_PROGRESS \<rparr>) now r
                    else r) (table w)"
        using True l by (intro map_cong) (auto simp: deletedRecord_def apply_deleting dest: same)
      with True Inr Some s c show ?thesis
        by (simp add: deleteStackByAccessCode_def deletionWritten_def toActiveStack_def Let_def
            updateStackRecord_def)
    next
      case False
      with Inr Some s c have "table (snd (deleteStackByAccessCode env now c w)) = table w"
        by (auto simp: deleteStackByAccessCode_def deletionWritten_def toActiveStack_def Let_def
            split: option.splits)
      then show ?thesis by simp
    qed
  qed
qed

lemma deleteOneOfAll_table:
  assumes "distinct (map guid (table w))" and "rec \<in> set (table w)" and "linked rec"
  shows "table (snd (deleteOneOfAll env now (m, w) (toActiveStack now rec))) =
           map (\<lambda>r. if guid r = guid rec then deletedRecord env now r else r) (table w)"
proof -
  have same: "r = rec" if "r \<in> set (table w)" "guid r = guid rec" for r
    using same_guid_same_record [OF assms(1) that(1) assms(2)] that(2) by simp
  show ?thesis
  proof (cases "deletionWritten env rec")
    case True
    have "map (\<lambda>r. if guid r = guid rec then deletedRecord env now r else r) (table w) =
        map (\<lambda>r. if guid r = guid rec
                  then applyUpdates (noUpdates\<lparr> u_status := Some DELETE_IN_PROGRESS \<rparr>) now r
                  else r) (table w)"
      using True assms(3)
      by (intro map_cong) (auto simp: deletedRecord_def apply_deleting dest: same)
    with True show ?thesis
      by (simp add: deleteOneOfAll_def deletionWritten_def toActiveStack_def Let_def
          updateStackRecord_def)
  next
    case False
    have "map (\<lambda>r. if guid r = guid rec then deletedRecord env now r else r) (table w) =
        map (\<lambda>r. r) (table w)"
      using False by (intro map_cong) (auto simp: deletedRecord_def dest: same)
    moreover from False
    have "table (snd (deleteOneOfAll env now (m, w) (toActiveStack now rec))) = table w"
      by (auto simp: deleteOneOfAll_def deletionWritten_def toActiveStack_def Let_def
          split: option.splits)
    ultimately show ?thesis by simp
  qed
qed

lemma delete_fold_table:
  assumes "distinct (map guid (table w))" and "set recs \<subseteq> set (table w)"
    and "distinct (map guid recs)" and "\<forall>r \<in> set recs. linked r"
  shows "table (snd (foldl (deleteOneOfAll env now) (m, w) (map (toActiveStack now) recs))) =
           map (\<lambda>r. if guid r \<in> set (map guid recs) then deletedRecord env now r else r)
             (table w)"
  using assms
proof (induction recs arbitrary: m w)
  case Nil
  then show ?case by simp
next
  case (Cons rec rest)
  let ?s = "deleteOneOfAll env now (m, w) (toActiveStack now rec)"
  let ?w1 = "snd ?s"
  have mem: "rec \<in> set (table w)" and lr: "linked rec"
    using Cons.prems(2,4) by simp_all
  have t1: "table ?w1 =
      map (\<lambda>r. if guid r = guid rec then deletedRecord env now r else r) (table w)"
    by (rule deleteOneOfAll_table [OF Cons.prems(1) mem lr])
  have g1: "map guid (table ?w1) = map guid (table w)"
    unfolding t1 by (simp add: comp_def)
  have d1: "distinct (map guid (table ?w1))"
    unfolding g1 by (rule Cons.prems(1))
  have nr: "guid rec \<notin> set (map guid rest)" and dr: "distinct (map guid rest)"
    and l1: "\<forall>r \<in> set rest. linked r"
    using Cons.prems(3,4) by simp_all
  have s1: "set rest \<subseteq> set (table ?w1)"
  proof
    fix r assume r: "r \<in> set rest"
    then have "guid r \<in> set (map guid rest)" by simp
    with nr have "guid r \<noteq> guid rec" by metis
    moreover from r Cons.prems(2) have "r \<in> set (table w)" by auto
    ultimately show "r \<in> set (table ?w1)"
      unfolding t1 by (auto simp: image_iff intro!: bexI [of _ r])
  qed
  have "foldl (deleteOneOfAll env now) (m, w) (map (toActiveStack now) (rec # rest)) =
          foldl (deleteOneOfAll env now) (fst ?s, ?w1) (map (toActiveStack now) rest)"
    by simp
  then have "table (snd (foldl (deleteOneOfAll env now) (m, w)
                            (map (toActiveStack now) (rec # rest)))) =
      map (\<lambda>r. if guid r \<in> set (map guid rest) then deletedRecord env now r else r) (table ?w1)"
    using Cons.IH [OF d1 s1 dr l1, of "fst ?s"] by simp
  also have "\<dots> = map (\<lambda>r. if guid r \<in> set (map guid (rec # rest))
                               then deletedRecord env now r else r) (table w)"
    unfolding t1 using nr by (auto simp: comp_def)
  finally show ?case .
qed

lemma deleteAllStacks_table:
  assumes "distinct (map guid (table w))"
  shows "table (snd (deleteAllStacks env now w)) = map (deletedRecord env now) (table w)"
proof -
  let ?recs = "filter linked (table w)"
  have "linked = (\<lambda>record. status record \<noteq> AVAILABLE \<and> truthy (stackArn record))"
    by (simp add: fun_eq_iff linked_def)
  then have a: "getAllActiveStacks now (table w) = map (toActiveStack now) ?recs"
    by (simp add: getAllActiveStacks_def getAllStackRecords_def)
  have s: "set ?recs \<subseteq> set (table w)" and d: "distinct (map guid ?recs)"
    and l: "\<forall>r \<in> set ?recs. linked r"
    using assms by (auto simp: distinct_map_filter)
  have "table (snd (deleteAllStacks env now w)) =
      map (\<lambda>r. if guid r \<in> set (map guid ?recs) then deletedRecord env now r else r) (table w)"
  proof (cases "?recs = []")
    case True
    then show ?thesis by (simp add: deleteAllStacks_def a Let_def)
  next
    case False
    then show ?thesis
      using delete_fold_table [OF assms s d l, of env now Map.empty]
      by (simp add: deleteAllStacks_def a Let_def)
  qed
  also have "\<dots> = map (deletedRecord env now) (table w)"
  proof (intro map_cong refl)
    fix r assume "r \<in> set (table w)"
    then have "guid r \<notin> set (map guid ?recs) \<Longrightarrow> \<not> linked r" by auto
    then show "(if guid r \<in> set (map guid ?recs) then deletedRecord env now r else r)
                 = deletedRecord env now r"
      by (auto simp: deletedRecord_def)
  qed
  finally show ?thesis .
qed

section \<open>The table after an operation\<close>

lemma deployStacks_table:
  "table (snd (deployStacks env config ts now count sel w)) = table w
   \<or> (\<exists>p assigned acc. assignAccessCodes (nat count) sel (table w) = Inr assigned
        \<and> table (snd (deployStacks env config ts now count sel w)) =
            table (snd (deployLoop env p ts now (nat count) 0 assigned acc w)))"
proof (cases "validateStackCount config count")
  case (Some e)
  then show ?thesis by (simp add: deployStacks_def)
next
  case None
  note vc = None
  show ?thesis
  proof (cases "validateTemplateUrl (urlProtocol env) (templateUrl config)")
    case (Some e)
    with vc show ?thesis by (simp add: deployStacks_def)
  next
    case None
    note vu = None
    show ?thesis
    proof (cases "assignAccessCodes (nat count) sel (table w)")
      case (Inl e)
      with vc vu show ?thesis by (simp add: deployStacks_def)
    next
      case (Inr assigned)
      let ?acc0 = "\<lparr> stacksSoFar = [], successfulDeployments = 0, failedDeployments = 0 \<rparr>"
      from deployStacks_validated [OF vc vu Inr, of ts now] obtain p where
        D: "deployStacks env config ts now count sel w =
          (case deployLoop env p ts now (nat count) 0 assigned ?acc0 w of
            (Inl e, w1) \<Rightarrow> (Inl e, w1)
          | (Inr acc, w1) \<Rightarrow>
              (Inr \<lparr> deployedStacks = stacksSoFar acc, assignedAccessCodes = assigned \<rparr>,
               if successfulDeployments acc > 0
               then manageRuleBasedOnStackCount (ruleOracle env) w1 else w1))"
        by blast
      let ?L = "deployLoop env p ts now (nat count) 0 assigned ?acc0 w"
      have "table (snd (deployStacks env config ts now count sel w)) = table (snd ?L)"
        unfolding D by (cases ?L; cases "fst ?L") (auto split: sum.splits)
      with Inr show ?thesis by blast
    qed
  qed
qed

lemma assigned_in_pool:
  assumes "assignAccessCodes n sel tbl = Inr assigned"
  shows "set assigned \<subseteq> set (map guid tbl)"
  using assignAccessCodes_result(2) [OF assms] getAvailableAccessCodes_subset [of tbl]
  by (auto simp: getAccessCodePool_def getAllStackRecords_def)

lemma deployStacks_invariant:
  assumes "distinct (map guid (table w))" and "consistent (table w)"
  shows "map guid (table (snd (deployStacks env config ts now count sel w))) = map guid (table w)"
    and "consistent (table (snd (deployStacks env config ts now count sel w)))"
  using deployStacks_table [of env config ts now count sel w] assms(2)
  by (auto simp: deployLoop_table deployLoop_consistent dest: assigned_in_pool)

lemma deployStacks_keeps_linked:
  assumes d: "distinct (map guid (table w))" and m: "r \<in> set (table w)"
    and n: "status r \<noteq> AVAILABLE"
    and m': "r' \<in> set (table (snd (deployStacks env config ts now count sel w)))"
    and g: "guid r' = guid r"
  shows "r' = r"
proof -
  from deployStacks_table [of env config ts now count sel w]
  have "filter (\<lambda>x. guid x = guid r) (table (snd (deployStacks env config ts now count sel w)))
          = filter (\<lambda>x. guid x = guid r) (table w)"
  proof (elim disjE exE conjE)
    fix p assigned acc
    assume a: "assignAccessCodes (nat count) sel (table w) = Inr assigned"
      and t: "table (snd (deployStacks env config ts now count sel w)) =
            table (snd (deployLoop env p ts now (nat count) 0 assigned acc w))"
    have "guid r \<notin> set assigned"
    proof
      assume "guid r \<in> set assigned"
      with assignAccessCodes_result(2) [OF a]
      have "guid r \<in> set (getAvailableAccessCodes (table w))" by auto
      from available_unique [OF d this] m n show False by auto
    qed
    from deployLoop_frame [OF this] t
    show ?thesis by simp
  qed simp
  moreover from m' g
  have "r' \<in> set (filter (\<lambda>x. guid x = guid r)
                    (table (snd (deployStacks env config ts now count sel w))))"
    by simp
  ultimately have "r' \<in> set (filter (\<lambda>x. guid x = guid r) (table w))"
    by simp
  then have "r' \<in> set (table w)" by simp
  from same_guid_same_record [OF d this m g] show ?thesis .
qed

lemma deleteStackByAccessCode_invariant:
  assumes "distinct (map guid (table w))" and "consistent (table w)"
  shows "map guid (table (snd (deleteStackByAccessCode env now c w))) = map guid (table w)"
    and "consistent (table (snd (deleteStackByAccessCode env now c w)))"
  using deleteStackByAccessCode_table [OF assms(1), of env now c] assms(2)
    deletedRecord_consistent [of _ env now]
  by (auto simp: comp_def consistent_def)

lemma deleteAllStacks_invariant:
  assumes "distinct (map guid (table w))" and "consistent (table w)"
  shows "map guid (table (snd (deleteAllStacks env now w))) = map guid (table w)"
    and "consistent (table (snd (deleteAllStacks env now w)))"
  using assms(2) deletedRecord_consistent [of _ env now]
  unfolding deleteAllStacks_table [OF assms(1)]
  by (auto simp: comp_def consistent_def)

lemma perform_invariant:
  assumes "distinct (map guid (table w))" and "consistent (table w)"
  shows "map guid (table (perform op w)) = map guid (table w)"
    and "consistent (table (perform op w))"
  using assms
  by (cases op; simp add: deployStacks_invariant deleteStackByAccessCode_invariant
      deleteAllStacks_invariant syncAllStacks_guids syncAllStacks_consistent)+

lemma run_invariant:
  assumes "distinct (map guid (table w))" and "consistent (table w)"
  shows "map guid (table (run ops w)) = map guid (table w) \<and> consistent (table (run ops w))"
  using assms
proof (induction ops arbitrary: w)
  case Nil
  then show ?case by (simp add: run_def)
next
  case (Cons op ops)
  from perform_invariant [OF Cons.prems, of op]
  have g: "map guid (table (perform op w)) = map guid (table w)"
    and c: "consistent (table (perform op w))" by simp_all
  from Cons.prems(1) g have "distinct (map guid (table (perform op w)))" by simp
  from Cons.IH [OF this c] g show ?case
    by (simp add: run_def)
qed

lemma deletedRecord_available:
  "status (deletedRecord env now x) = AVAILABLE \<Longrightarrow> deletedRecord env now x = x"
  by (auto simp: deletedRecord_def linked_def split: if_splits)

lemma delete_keeps_linked:
  assumes "r' \<in> set (map (\<lambda>x. if P x then deletedRecord env now x else x) tbl)"
    and "status r' = AVAILABLE"
  shows "r' \<in> set tbl"
  using assms by (auto split: if_splits dest: deletedRecord_available)

lemma perform_available_only_by_reset:
  assumes d: "distinct (map guid (table w))" and m: "r \<in> set (table w)"
    and n: "status r \<noteq> AVAILABLE"
    and m': "r' \<in> set (table (perform op w))" and g: "guid r' = guid r"
    and a: "status r' = AVAILABLE"
    and cf: "\<forall>env now. op = Reconcile env now \<longrightarrow> cloudFormationStatuses env"
  shows "\<exists>env now arn. op = Reconcile env now \<and> stackArn r = Some arn \<and> arn \<noteq> []
           \<and> reportsGone (describeStacks env arn) \<and> syncUpdateThrows env (guid r) = None
           \<and> r' = resetRecord now r"
proof (cases op)
  case (Allocate env config ts now count sel)
  with deployStacks_keeps_linked [OF d m n _ g, of env config ts now count sel] m' a n
  show ?thesis by auto
next
  case (DeleteOne env now c)
  with deleteStackByAccessCode_table [OF d, of env now c] m' a
  have "r' \<in> set (table w)"
    using delete_keeps_linked [where P = "\<lambda>x. guid x = c" and r' = r' and env = env
        and now = now and tbl = "table w"]
    by auto
  from same_guid_same_record [OF d this m g] a n show ?thesis by simp
next
  case (DeleteAll env now)
  with deleteAllStacks_table [OF d, of env now] m' a
  have "r' \<in> set (table w)"
    using delete_keeps_linked [where P = "\<lambda>x. True" and r' = r' and env = env and now = now
        and tbl = "table w"]
    by simp
  from same_guid_same_record [OF d this m g] a n show ?thesis by simp
next
  case (Reconcile env now)
  from m have "getStackRecord (guid r) (table (perform op w)) = Some (syncedRecord env now r)"
    using syncAllStacks_record [OF d m, of env now] n by (simp add: Reconcile)
  moreover have "distinct (map guid (table (perform op w)))"
    using syncAllStacks_guids [OF d, of env now] d by (simp add: Reconcile)
  ultimately have "r' = syncedRecord env now r"
    using getStackRecord_distinct [OF _ m'] g by simp
  with syncedRecord_available_only_by_reset [OF n _ cf [rule_format, OF Reconcile], of now] a
    Reconcile
  show ?thesis by auto
qed

section \<open>The reset to \<open>AVAILABLE\<close>\<close>

text \<open>
  C5. On a table with one record for each Access Code: a pass resets every record that is
  not \<open>AVAILABLE\<close> and has a stack ARN for which DescribeStacks reports that the stack does
  not exist, or is in \<open>DELETE_COMPLETE\<close>, provided the write of the round succeeds: the
  record is then \<open>AVAILABLE\<close>, without stack ARN, name, id, outputs, creation time and
  sync error. And whenever a record that is not \<open>AVAILABLE\<close> is \<open>AVAILABLE\<close> after an
  operation (a deployment, a deletion of one or of all stacks, or a pass, in which
  CloudFormation reports statuses of its own only), the operation is a pass and the record
  was reset in this way.
\<close>

theorem reconciliation_reset:
  assumes "distinct (map guid (table w))"
  shows "(\<forall>r \<in> set (table w). \<forall>arn.
            status r \<noteq> AVAILABLE \<and> stackArn r = Some arn \<and> arn \<noteq> []
            \<and> reportsGone (describeStacks env arn) \<and> syncUpdateThrows env (guid r) = None
          \<longrightarrow> getStackRecord (guid r) (table (snd (syncAllStacks env now w)))
                = Some (resetRecord now r))
       \<and> (\<forall>r \<in> set (table w). \<forall>r' \<in> set (table (perform op w)).
            status r \<noteq> AVAILABLE \<and> guid r' = guid r \<and> status r' = AVAILABLE
            \<and> (\<forall>env' now'. op = Reconcile env' now' \<longrightarrow> cloudFormationStatuses env')
          \<longrightarrow> (\<exists>env' now' arn. op = Reconcile env' now' \<and> stackArn r = Some arn \<and> arn \<noteq> []
                 \<and> reportsGone (describeStacks env' arn)
                 \<and> syncUpdateThrows env' (guid r) = None \<and> r' = resetRecord now' r))"
proof (intro conjI ballI allI impI)
  fix r arn
  assume m: "r \<in> set (table w)"
    and h: "status r \<noteq> AVAILABLE \<and> stackArn r = Some arn \<and> arn \<noteq> []
            \<and> reportsGone (describeStacks env arn) \<and> syncUpdateThrows env (guid r) = None"
  then have "syncedRecord env now r = resetRecord now r"
    using syncedRecord_reset [of r arn env now] by blast
  with syncAllStacks_record [OF assms m, of env now] h
  show "getStackRecord (guid r) (table (snd (syncAllStacks env now w))) = Some (resetRecord now r)"
    by simp
next
  fix r r'
  assume m: "r \<in> set (table w)" and m': "r' \<in> set (table (perform op w))"
    and h: "status r \<noteq> AVAILABLE \<and> guid r' = guid r \<and> status r' = AVAILABLE
            \<and> (\<forall>env' now'. op = Reconcile env' now' \<longrightarrow> cloudFormationStatuses env')"
  then show "\<exists>env' now' arn. op = Reconcile env' now' \<and> stackArn r = Some arn \<and> arn \<noteq> []
                 \<and> reportsGone (describeStacks env' arn)
                 \<and> syncUpdateThrows env' (guid r) = None \<and> r' = resetRecord now' r"
    using perform_available_only_by_reset [OF assms m _ m'] by blast
qed

theorem reconciliation_reset_witness:
  "distinct (map guid (table (worldOf
      [linkedRecord codeA CREATE_COMPLETE, linkedRecord codeB DELETE_IN_PROGRESS])))
   \<and> linkedRecord codeA CREATE_COMPLETE \<in> set (table (worldOf
        [linkedRecord codeA CREATE_COMPLETE, linkedRecord codeB DELETE_IN_PROGRESS]))
   \<and> reportsGone (describeStacks goneEnv (''arn:'' @ codeA))
   \<and> reportsGone (describeStacks goneEnv (''arn:'' @ codeB))
   \<and> cloudFormationStatuses goneEnv
   \<and> getStackRecord codeA (table (snd (syncAllStacks goneEnv ''t1'' (worldOf
        [linkedRecord codeA CREATE_COMPLETE, linkedRecord codeB DELETE_IN_PROGRESS]))))
       = Some (resetRecord ''t1'' (linkedRecord codeA CREATE_COMPLETE))
   \<and> getStackRecord codeB (table (snd (syncAllStacks goneEnv ''t1'' (worldOf
        [linkedRecord codeA CREATE_COMPLETE, linkedRecord codeB DELETE_IN_PROGRESS]))))
       = Some (resetRecord ''t1'' (linkedRecord codeB DELETE_IN_PROGRESS))
   \<and> status (resetRecord ''t1'' (linkedRecord codeA CREATE_COMPLETE)) = AVAILABLE
   \<and> (\<exists>arn. stackArn (linkedRecord codeA CREATE_COMPLETE) = Some arn
         \<and> reportsGone (describeStacks goneEnv arn))"
proof -
  let ?a = "linkedRecord codeA CREATE_COMPLETE"
  let ?b = "linkedRecord codeB DELETE_IN_PROGRESS"
  let ?w = "worldOf [?a, ?b]"
  let ?op = "Reconcile goneEnv ''t1''"
  have t: "table ?w = [?a, ?b]" by (simp add: worldOf_def)
  have f: "guid (linkedRecord c s) = c" "status (linkedRecord c s) = s"
    "stackArn (linkedRecord c s) = Some (''arn:'' @ c)" for c s
    by (simp_all add: linkedRecord_def)
  have d: "distinct (map guid (table ?w))"
    using codes_distinct by (simp add: t f)
  have ga: "reportsGone (describeStacks goneEnv (''arn:'' @ codeA))"
    by (simp add: goneEnv_def reportsGone_def stackDoesNotExist_def)
  have gb: "reportsGone (describeStacks goneEnv (''arn:'' @ codeB))"
    using codes_distinct by (simp add: goneEnv_def reportsGone_def)
  have cs: "cloudFormationStatuses goneEnv"
    by (auto simp: cloudFormationStatuses_def goneEnv_def split: if_splits)
  have u: "syncUpdateThrows goneEnv c = None" for c
    by (simp add: goneEnv_def)
  note T = reconciliation_reset [OF d, of goneEnv "''t1''" ?op]
  from T ga u have ra: "getStackRecord codeA (table (snd (syncAllStacks goneEnv ''t1'' ?w)))
       = Some (resetRecord ''t1'' ?a)"
    by (simp add: t f)
  from T gb u have rb: "getStackRecord codeB (table (snd (syncAllStacks goneEnv ''t1'' ?w)))
       = Some (resetRecord ''t1'' ?b)"
    by (simp add: t f)
  have sa: "status (resetRecord ''t1'' ?a) = AVAILABLE" "guid (resetRecord ''t1'' ?a) = guid ?a"
    by (simp_all add: resetRecord_def)
  have mem: "?a \<in> set (table ?w)" by (simp add: t)
  from ra have mres: "resetRecord ''t1'' ?a \<in> set (table (perform ?op ?w))"
    by (auto dest: getStackRecord_mem)
  have hyp: "status ?a \<noteq> AVAILABLE \<and> guid (resetRecord ''t1'' ?a) = guid ?a
      \<and> status (resetRecord ''t1'' ?a) = AVAILABLE
      \<and> (\<forall>env' now'. ?op = Reconcile env' now' \<longrightarrow> cloudFormationStatuses env')"
    using cs sa by (simp add: f)
  from conjunct2 [OF T, rule_format, OF mem mres hyp]
  obtain env' now' arn where "?op = Reconcile env' now'" "stackArn ?a = Some arn"
    "reportsGone (describeStacks env' arn)"
    by blast
  then have e: "\<exists>arn. stackArn ?a = Some arn \<and> reportsGone (describeStacks goneEnv arn)"
    by auto
  from d mem ga gb cs ra rb sa(1) e show ?thesis
    by blast
qed

section \<open>The pool\<close>

lemma concat_batches: "0 < n \<Longrightarrow> concat (batches n xs) = xs"
proof (induction n xs rule: batches.induct)
  case (1 n xs)
  show ?case
  proof (cases "xs = []")
    case True
    then show ?thesis by (simp add: batches.simps)
  next
    case False
    with 1 have "concat (batches n (drop n xs)) = drop n xs" by simp
    with False 1(2) show ?thesis
      by (subst batches.simps) simp
  qed
qed

lemma foldl_foldl_concat: "foldl (foldl f) a xss = foldl f a (concat xss)"
  by (induction xss arbitrary: a) simp_all

lemma batchPutStackRecords_puts:
  "batchPutStackRecords records tbl = foldl (\<lambda>t record. putStackRecord record t) tbl records"
  by (simp add: batchPutStackRecords_def foldl_foldl_concat concat_batches)

lemma puts_fresh:
  assumes "distinct (map guid records)" and "set (map guid records) \<inter> set (map guid tbl) = {}"
  shows "foldl (\<lambda>t record. putStackRecord record t) tbl records = tbl @ records"
  using assms
proof (induction records arbitrary: tbl)
  case Nil
  then show ?case by simp
next
  case (Cons rec rest)
  from Cons.prems have p: "putStackRecord rec tbl = tbl @ [rec]"
    by (auto simp: putStackRecord_def)
  from Cons.prems have "distinct (map guid rest)"
    and "set (map guid rest) \<inter> set (map guid (tbl @ [rec])) = {}"
    by auto
  from Cons.IH [OF this] show ?case
    by (simp add: p)
qed

lemma initializeAccessCodePool_empty:
  assumes "distinct codes"
  shows "initializeAccessCodePool codes now [] =
           map (\<lambda>c. \<lparr> guid = c, stackArn = None, stackName = None, stackId = None,
                       status = AVAILABLE, createdAt = None, updatedAt = now, outputs = None,
                       lastSyncAt = None, syncError = None \<rparr>) codes"
proof -
  have e: "batchGetStackRecords codes [] = []"
    by (simp add: batchGetStackRecords_def)
  have "distinct (map guid (map (\<lambda>c. \<lparr> guid = c, stackArn = None, stackName = None,
      stackId = None, status = AVAILABLE, createdAt = None, updatedAt = now, outputs = None,
      lastSyncAt = None, syncError = None \<rparr>) codes))"
    using assms by (simp add: comp_def)
  from puts_fresh [OF this, of "[]"] show ?thesis
    by (simp add: initializeAccessCodePool_def e batchPutStackRecords_puts Let_def)
qed

lemma available_or_linked:
  assumes "consistent tbl"
  shows "length (filter (\<lambda>r. status r = AVAILABLE) tbl) + length (filter linked tbl) = length tbl"
proof -
  have "filter linked tbl = filter (\<lambda>r. \<not> status r = AVAILABLE) tbl"
    using assms by (intro filter_cong) (auto simp: linked_def consistent_def)
  then show ?thesis
    by (simp add: sum_length_filter_compl)
qed

lemma recordMap_lookup:
  assumes d: "distinct (map guid tbl)" and m: "r \<in> set tbl"
  shows "foldl (\<lambda>m record. m(guid record \<mapsto> record)) Map.empty
           (batchGetStackRecords (getAccessCodePool tbl) tbl) (guid r) = Some r"
proof -
  let ?pool = "getAccessCodePool tbl"
  let ?recs = "batchGetStackRecords ?pool tbl"
  let ?map = "foldl (\<lambda>m record. m(guid record \<mapsto> record)) Map.empty ?recs"
  from m have ne: "?pool \<noteq> []"
    by (auto simp: getAccessCodePool_def getAllStackRecords_def)
  have sub: "set ?recs \<subseteq> set tbl"
    by (auto simp: batchGetStackRecords_def)
  from m have "guid r \<in> set (concat (batches 100 ?pool))"
    by (simp add: concat_batches getAccessCodePool_def getAllStackRecords_def)
  then obtain b where "b \<in> set (batches 100 ?pool)" "guid r \<in> set b"
    by auto
  with m ne have "r \<in> set ?recs"
    by (auto simp: batchGetStackRecords_def)
  then have "guid r \<in> dom ?map"
    unfolding foldl_upd_dom by auto
  then obtain y where y: "?map (guid r) = Some y" by auto
  from foldl_upd_Some [OF y] have "y \<in> set ?recs" "guid y = guid r" by auto
  with sub have "y \<in> set tbl" by auto
  from same_guid_same_record [OF d this m \<open>guid y = guid r\<close>] y show ?thesis by simp
qed

lemma getAllAccessCodeStatuses_distinct:
  assumes d: "distinct (map guid tbl)" and ne: "tbl \<noteq> []"
  shows "getAllAccessCodeStatuses tbl =
           Inr \<lparr> accessCodeStatuses = map stackRecordToAccessCodeStatus tbl,
                 totalAvailable = length tbl - length (filter linked tbl),
                 totalLinked = length (filter linked tbl) \<rparr>"
proof -
  let ?map = "foldl (\<lambda>m record. m(guid record \<mapsto> record)) Map.empty
                (batchGetStackRecords (getAccessCodePool tbl) tbl)"
  let ?absent = "\<lambda>c. \<lparr> a_accessCode = c, isLinked = False, a_stackName = None,
                         a_stackId = None, a_createdAt = None, a_status = None \<rparr>"
  have s: "map (\<lambda>c. case ?map c of None \<Rightarrow> ?absent c
                     | Some record \<Rightarrow> stackRecordToAccessCodeStatus record)
             (getAccessCodePool tbl)
           = map stackRecordToAccessCodeStatus tbl"
    unfolding getAccessCodePool_def getAllStackRecords_def map_map
    by (intro map_cong refl)
      (simp add: recordMap_lookup [OF d, unfolded getAccessCodePool_def getAllStackRecords_def])
  have l: "length (filter isLinked (map stackRecordToAccessCodeStatus tbl))
             = length (filter linked tbl)"
    by (simp add: filter_map comp_def stackRecordToAccessCodeStatus_def linked_def [abs_def])
  have p: "getAccessCodePool tbl \<noteq> []" "length (getAccessCodePool tbl) = length tbl"
    using ne by (simp_all add: getAccessCodePool_def getAllStackRecords_def)
  show ?thesis
    unfolding getAllAccessCodeStatuses_def Let_def s l using p by simp
qed
text \<open>
  Claim C1 (pool conservation). The pool that \<^verbatim>\<open>initializeAccessCodePool\<close> writes into an
  empty table for distinct Access Codes has one \<open>AVAILABLE\<close> record per code. From every
  table with one record per Access Code in which each record that is not \<open>AVAILABLE\<close> has
  a stack ARN, every sequence of deployments, deletions of one stack, deletions of all stacks
  and reconciliation passes keeps the Access Codes of the table as they are, no record is
  added, removed or repeated, the number of \<open>AVAILABLE\<close> records plus the number of linked
  records is the size of the pool, and \<^verbatim>\<open>getAllAccessCodeStatuses\<close> reports these two numbers
  as \<^verbatim>\<open>totalAvailable\<close> and \<^verbatim>\<open>totalLinked\<close>.
\<close>

theorem pool_conservation:
  "(distinct codes \<longrightarrow>
      map guid (initializeAccessCodePool codes now []) = codes
      \<and> list_all (\<lambda>r. status r = AVAILABLE) (initializeAccessCodePool codes now [])
      \<and> consistent (initializeAccessCodePool codes now []))
   \<and> (distinct (map guid (table w)) \<and> consistent (table w) \<longrightarrow>
      map guid (table (run ops w)) = map guid (table w)
      \<and> length (filter (\<lambda>r. status r = AVAILABLE) (table (run ops w)))
          + length (filter linked (table (run ops w))) = length (table w)
      \<and> (table w \<noteq> [] \<longrightarrow>
           getAllAccessCodeStatuses (table (run ops w)) =
             Inr \<lparr> accessCodeStatuses = map stackRecordToAccessCodeStatus (table (run ops w)),
                   totalAvailable =
                     length (filter (\<lambda>r. status r = AVAILABLE) (table (run ops w))),
                   totalLinked = length (filter linked (table (run ops w))) \<rparr>))"
proof (intro conjI impI)
  assume "distinct codes"
  note i = initializeAccessCodePool_empty [OF this, of now]
  show "map guid (initializeAccessCodePool codes now []) = codes"
    unfolding i by (simp add: comp_def)
  show "list_all (\<lambda>r. status r = AVAILABLE) (initializeAccessCodePool codes now [])"
    unfolding i by (simp add: list_all_iff)
  show "consistent (initializeAccessCodePool codes now [])"
    unfolding i by (simp add: consistent_def)
next
  assume a: "distinct (map guid (table w)) \<and> consistent (table w)"
  then have d: "distinct (map guid (table w))" and c: "consistent (table w)" by simp_all
  from run_invariant [OF d c, of ops]
  have g: "map guid (table (run ops w)) = map guid (table w)"
    and c': "consistent (table (run ops w))" by simp_all
  from g show "map guid (table (run ops w)) = map guid (table w)" .
  from g have len: "length (table (run ops w)) = length (table w)"
    by (metis length_map)
  from available_or_linked [OF c'] len
  show s: "length (filter (\<lambda>r. status r = AVAILABLE) (table (run ops w)))
          + length (filter linked (table (run ops w))) = length (table w)" by simp
  assume "table w \<noteq> []"
  with len have ne: "table (run ops w) \<noteq> []" by auto
  from d g have d': "distinct (map guid (table (run ops w)))" by simp
  from s len have "length (table (run ops w)) - length (filter linked (table (run ops w)))
      = length (filter (\<lambda>r. status r = AVAILABLE) (table (run ops w)))" by simp
  with getAllAccessCodeStatuses_distinct [OF d' ne]
  show "getAllAccessCodeStatuses (table (run ops w)) =
             Inr \<lparr> accessCodeStatuses = map stackRecordToAccessCodeStatus (table (run ops w)),
                   totalAvailable =
                     length (filter (\<lambda>r. status r = AVAILABLE) (table (run ops w))),
                   totalLinked = length (filter linked (table (run ops w))) \<rparr>" by simp
qed

text \<open>
  A pool of two Access Codes, after a deployment of two stacks, the deletion of the stack of
  \<open>codeA\<close>, a reconciliation pass and the deletion of all stacks.
\<close>

theorem pool_conservation_witness:
  "distinct [codeA, codeB]
   \<and> map guid (initializeAccessCodePool [codeA, codeB] ''t0'' []) = [codeA, codeB]
   \<and> map guid (table (run [Allocate lastFiveFail plainConfig 0 ''t1'' 2 None,
                            DeleteOne quietDelete ''t2'' codeA,
                            Reconcile goneEnv ''t3'',
                            DeleteAll quietDelete ''t4'']
                       (worldOf (initializeAccessCodePool [codeA, codeB] ''t0'' []))))
       = [codeA, codeB]
   \<and> length (filter (\<lambda>r. status r = AVAILABLE)
         (table (run [Allocate lastFiveFail plainConfig 0 ''t1'' 2 None,
                      DeleteOne quietDelete ''t2'' codeA,
                      Reconcile goneEnv ''t3'',
                      DeleteAll quietDelete ''t4'']
                 (worldOf (initializeAccessCodePool [codeA, codeB] ''t0'' [])))))
       + length (filter linked
         (table (run [Allocate lastFiveFail plainConfig 0 ''t1'' 2 None,
                      DeleteOne quietDelete ''t2'' codeA,
                      Reconcile goneEnv ''t3'',
                      DeleteAll quietDelete ''t4'']
                 (worldOf (initializeAccessCodePool [codeA, codeB] ''t0'' []))))) = 2
   \<and> (\<exists>response.
         getAllAccessCodeStatuses
           (table (run [Allocate lastFiveFail plainConfig 0 ''t1'' 2 None,
                        DeleteOne quietDelete ''t2'' codeA,
                        Reconcile goneEnv ''t3'',
                        DeleteAll quietDelete ''t4'']
                   (worldOf (initializeAccessCodePool [codeA, codeB] ''t0'' [])))) = Inr response
         \<and> totalAvailable response + totalLinked response = 2)"
proof -
  let ?t = "initializeAccessCodePool [codeA, codeB] ''t0'' []"
  let ?ops = "[Allocate lastFiveFail plainConfig 0 ''t1'' 2 None,
               DeleteOne quietDelete ''t2'' codeA,
               Reconcile goneEnv ''t3'',
               DeleteAll quietDelete ''t4'']"
  have d: "distinct [codeA, codeB]"
    using codes_distinct by simp
  have t: "table (worldOf ?t) = ?t"
    by (simp add: worldOf_def)
  from pool_conservation [of "[codeA, codeB]" "''t0''" "worldOf ?t" ?ops] d
  have i: "map guid ?t = [codeA, codeB]" and c: "consistent ?t"
    by blast+
  from i have ne: "?t \<noteq> []" and l: "length ?t = 2" and dt: "distinct (map guid ?t)"
    using d by (auto dest: arg_cong [of _ _ length])
  from pool_conservation [of "[codeA, codeB]" "''t0''" "worldOf ?t" ?ops] dt c ne
  have g: "map guid (table (run ?ops (worldOf ?t))) = map guid ?t"
    and s: "length (filter (\<lambda>r. status r = AVAILABLE) (table (run ?ops (worldOf ?t))))
          + length (filter linked (table (run ?ops (worldOf ?t)))) = length ?t"
    and r: "getAllAccessCodeStatuses (table (run ?ops (worldOf ?t))) =
             Inr \<lparr> accessCodeStatuses =
                     map stackRecordToAccessCodeStatus (table (run ?ops (worldOf ?t))),
                   totalAvailable =
                     length (filter (\<lambda>r. status r = AVAILABLE) (table (run ?ops (worldOf ?t)))),
                   totalLinked = length (filter linked (table (run ?ops (worldOf ?t)))) \<rparr>"
    unfolding t by blast+
  from r s l have "\<exists>response.
         getAllAccessCodeStatuses (table (run ?ops (worldOf ?t))) = Inr response
         \<and> totalAvailable response + totalLinked response = 2"
    by simp
  with d i g s l show ?thesis
    by simp
qed

section \<open>The rounds of a deployment\<close>

lemma failuresFrom_0 [simp]: "failuresFrom env i 0 = 0"
  by (simp add: failuresFrom_def)

lemma failuresFrom_Suc:
  "failuresFrom env i (Suc k) = (if createFails env i then 1 else 0) + failuresFrom env (Suc i) k"
  by (simp add: failuresFrom_def upt_first del: upt_Suc)

lemma failuresFrom_le: "failuresFrom env i k \<le> k"
  using length_filter_le [of "createFails env" "[i..<i + k]"] by (simp add: failuresFrom_def)

lemma failuresFrom_failuresBefore: "failuresFrom env 0 k = failuresBefore env k"
  by (simp add: failuresFrom_def failuresBefore_def)

lemma getStackRecord_filter:
  "getStackRecord g tbl = (case filter (\<lambda>r. guid r = g) tbl of [] \<Rightarrow> None | r # rs \<Rightarrow> Some r)"
  by (induction tbl) (simp_all add: getStackRecord_def)

lemma getStackRecord_putStackRecord:
  "getStackRecord (guid rec) (putStackRecord rec tbl) = Some rec"
proof (cases "guid rec \<in> set (map guid tbl)")
  case True
  then have "find (\<lambda>r. guid r = guid rec) (map (\<lambda>r. if guid r = guid rec then rec else r) tbl)
      = Some rec"
    by (induction tbl) auto
  with True show ?thesis
    by (simp add: putStackRecord_def getStackRecord_def)
next
  case False
  then have "find (\<lambda>r. guid r = guid rec) (tbl @ [rec]) = Some rec"
    by (induction tbl) auto
  with False show ?thesis
    by (simp add: putStackRecord_def getStackRecord_def)
qed

lemma deployOne_world:
  "snd (snd (deployOne env p t now n i c acc w)) =
     w\<lparr> calls := calls w @ [CreateStackCommand (stackNameOf p c t i)],
        table := (case createOutcome (createStack env i) of
                    Inr sid \<Rightarrow>
                      if putThrows env i then table w
                      else putStackRecord
                             \<lparr> guid = c, stackArn = Some sid,
                               stackName = Some (stackNameOf p c t i), stackId = Some sid,
                               status = CREATE_IN_PROGRESS, createdAt = Some now,
                               updatedAt = now, outputs = None, lastSyncAt = None,
                               syncError = None \<rparr> (table w)
                  | Inl errorMessage \<Rightarrow>
                      if resetThrows env i then table w
                      else updateStackRecord c resetUpdates now (table w)) \<rparr>"
  by (simp add: deployOne_def startsWith_stackNameOf Let_def split: sum.splits)

lemma deployOne_record:
  "getStackRecord c (table (snd (snd (deployOne env p t now n i c acc w))))
     = roundRecord env p t now i c (getStackRecord c (table w))"
proof (cases "createOutcome (createStack env i)")
  case (Inl msg)
  then show ?thesis
    by (simp add: deployOne_world roundRecord_def getStackRecord_updateStackRecord)
next
  case (Inr sid)
  let ?rec = "\<lparr> guid = c, stackArn = Some sid, stackName = Some (stackNameOf p c t i),
     stackId = Some sid, status = CREATE_IN_PROGRESS, createdAt = Some now, updatedAt = now,
     outputs = None, lastSyncAt = None, syncError = None \<rparr>"
  from getStackRecord_putStackRecord [of ?rec "table w"]
  have "getStackRecord c (putStackRecord ?rec (table w)) = Some ?rec" by simp
  with Inr show ?thesis
    by (simp add: deployOne_world roundRecord_def)
qed

lemma deployOne_other:
  assumes "g \<noteq> c"
  shows "getStackRecord g (table (snd (snd (deployOne env p t now n i c acc w))))
           = getStackRecord g (table w)"
proof -
  obtain e acc1 w1 where d: "deployOne env p t now n i c acc w = (e, acc1, w1)"
    by (cases "deployOne env p t now n i c acc w") auto
  from deployOne_table(3) [OF d, of g] assms show ?thesis
    by (simp add: getStackRecord_filter d)
qed

lemma deployOne_error:
  "fst (deployOne env p t now n i c acc w) =
     (case createOutcome (createStack env i) of
        Inr sid \<Rightarrow> None
      | Inl msg \<Rightarrow>
          if n < 2 * (failedDeployments acc + 1)
          then Some (LambdaError 500 ''DEPLOYMENT_BATCH_FAILED''
                       (BatchCounts (successfulDeployments acc) (failedDeployments acc + 1) n
                          msg))
          else None)"
  by (simp add: deployOne_def startsWith_stackNameOf Let_def split: sum.splits)

lemma deployOne_counters:
  "failedDeployments (fst (snd (deployOne env p t now n i c acc w)))
     = failedDeployments acc + (if createFails env i then 1 else 0)"
  "successfulDeployments (fst (snd (deployOne env p t now n i c acc w)))
     = successfulDeployments acc + (if createFails env i then 0 else 1)"
  by (simp_all add: deployOne_def startsWith_stackNameOf Let_def createFails_def
      split: sum.splits)

lemma deployLoop_Cons:
  "deployLoop env p t now n i (c # rest) acc w =
     (case fst (deployOne env p t now n i c acc w) of
        Some e \<Rightarrow> (Inl e, snd (snd (deployOne env p t now n i c acc w)))
      | None \<Rightarrow> deployLoop env p t now n (i + 1) rest
                  (fst (snd (deployOne env p t now n i c acc w)))
                  (snd (snd (deployOne env p t now n i c acc w))))"
  by (simp split: prod.splits option.splits)

lemma deployLoop_other:
  assumes "g \<notin> set codes"
  shows "getStackRecord g (table (snd (deployLoop env p t now n i codes acc w)))
           = getStackRecord g (table w)"
  using deployLoop_frame [OF assms, of env p t now n i acc w]
  by (simp add: getStackRecord_filter)

text \<open>The record of the Access Code of a round after the loop.\<close>

lemma deployLoop_record:
  assumes "2 * failedDeployments acc \<le> n" and "distinct codes" and "k < length codes"
  shows "getStackRecord (codes ! k) (table (snd (deployLoop env p t now n i codes acc w))) =
     (if 2 * (failedDeployments acc + failuresFrom env i k) \<le> n
      then roundRecord env p t now (i + k) (codes ! k) (getStackRecord (codes ! k) (table w))
      else getStackRecord (codes ! k) (table w))"
  using assms
proof (induction codes arbitrary: i acc w k)
  case Nil
  then show ?case by simp
next
  case (Cons c rest)
  let ?d = "deployOne env p t now n i c acc w"
  let ?acc1 = "fst (snd ?d)" and ?w1 = "snd (snd ?d)"
  have c: "c \<notin> set rest" and dr: "distinct rest"
    using Cons.prems(2) by simp_all
  have none: "2 * failedDeployments ?acc1 \<le> n" if "fst ?d = None"
    using that Cons.prems(1)
    by (auto simp: deployOne_error deployOne_counters createFails_def
        split: sum.splits if_splits)
  have some: "createFails env i \<and> n < 2 * (failedDeployments acc + 1)" if "fst ?d = Some e" for e
    using that
    by (auto simp: deployOne_error createFails_def split: sum.splits if_splits)
  show ?case
  proof (cases k)
    case 0
    have "getStackRecord c (table (snd (deployLoop env p t now n i (c # rest) acc w)))
            = getStackRecord c (table ?w1)"
      by (cases "fst ?d") (simp_all add: deployLoop_Cons deployLoop_other [OF c] del: deployLoop.simps)
    with Cons.prems(1) 0 show ?thesis
      by (simp add: deployOne_record)
  next
    case (Suc k')
    with Cons.prems(3) have k': "k' < length rest" by simp
    then have "rest ! k' \<in> set rest" by simp
    with c have ne: "rest ! k' \<noteq> c" by auto
    show ?thesis
    proof (cases "fst ?d")
      case None
      from Cons.IH [OF none [OF None] dr k', of "i + 1" ?w1]
      have "getStackRecord (rest ! k') (table (snd (deployLoop env p t now n i (c # rest) acc w)))
          = (if 2 * (failedDeployments ?acc1 + failuresFrom env (i + 1) k') \<le> n
             then roundRecord env p t now (i + 1 + k') (rest ! k')
                    (getStackRecord (rest ! k') (table ?w1))
             else getStackRecord (rest ! k') (table ?w1))"
        by (simp add: deployLoop_Cons None del: deployLoop.simps)
      then show ?thesis
        by (simp add: Suc deployOne_other [OF ne] deployOne_counters failuresFrom_Suc
            add.assoc)
    next
      case (Some e)
      from some [OF Some] have "n < 2 * (failedDeployments acc + failuresFrom env i (Suc k'))"
        by (simp add: failuresFrom_Suc)
      then show ?thesis
        by (simp add: Suc deployLoop_Cons Some deployOne_other [OF ne] del: deployLoop.simps)
    qed
  qed
qed

text \<open>The round that aborts the loop.\<close>

lemma deployLoop_abort_round:
  assumes "fst (deployLoop env p t now n i codes acc w) = Inl e"
    and "2 * failedDeployments acc \<le> n"
  shows "\<exists>k msg. k < length codes \<and> createOutcome (createStack env (i + k)) = Inl msg
     \<and> 2 * (failedDeployments acc + failuresFrom env i k) \<le> n
     \<and> n < 2 * (failedDeployments acc + failuresFrom env i k + 1)
     \<and> e = LambdaError 500 ''DEPLOYMENT_BATCH_FAILED''
             (BatchCounts (successfulDeployments acc + (k - failuresFrom env i k))
                (failedDeployments acc + failuresFrom env i k + 1) n msg)
     \<and> calls (snd (deployLoop env p t now n i codes acc w)) =
         calls w @ map (\<lambda>j. CreateStackCommand (stackNameOf p (codes ! j) t (i + j)))
                     [0..<Suc k]
     \<and> (\<forall>g. g \<notin> set (take (Suc k) codes) \<longrightarrow>
           getStackRecord g (table (snd (deployLoop env p t now n i codes acc w)))
             = getStackRecord g (table w))"
  using assms
proof (induction codes arbitrary: i acc w)
  case Nil
  then show ?case by simp
next
  case (Cons c rest)
  let ?d = "deployOne env p t now n i c acc w"
  let ?acc1 = "fst (snd ?d)" and ?w1 = "snd (snd ?d)"
  have cw1: "calls ?w1 = calls w @ [CreateStackCommand (stackNameOf p c t i)]"
    by (simp add: deployOne_world)
  show ?case
  proof (cases "fst ?d")
    case (Some err)
    with Cons.prems(1) have e: "err = e" and fin: "snd (deployLoop env p t now n i (c # rest) acc w) = ?w1"
      by (simp_all add: deployLoop_Cons del: deployLoop.simps)
    from Some obtain msg where m: "createOutcome (createStack env i) = Inl msg"
      and h: "n < 2 * (failedDeployments acc + 1)"
      and ee: "err = LambdaError 500 ''DEPLOYMENT_BATCH_FAILED''
                 (BatchCounts (successfulDeployments acc) (failedDeployments acc + 1) n msg)"
      by (auto simp: deployOne_error split: sum.splits if_splits)
    have "\<forall>g. g \<notin> set (take (Suc 0) (c # rest)) \<longrightarrow>
           getStackRecord g (table ?w1) = getStackRecord g (table w)"
      by (simp add: deployOne_other)
    with m h ee e Cons.prems(2) cw1 show ?thesis
      unfolding fin
      by (intro exI [of _ 0] exI [of _ msg]) simp
  next
    case None
    have n1: "2 * failedDeployments ?acc1 \<le> n"
      using None Cons.prems(2)
      by (auto simp: deployOne_error deployOne_counters createFails_def
          split: sum.splits if_splits)
    from Cons.prems(1) None
    have l: "deployLoop env p t now n i (c # rest) acc w
               = deployLoop env p t now n (i + 1) rest ?acc1 ?w1"
      by (simp add: deployLoop_Cons del: deployLoop.simps)
    with Cons.prems(1) have "fst (deployLoop env p t now n (i + 1) rest ?acc1 ?w1) = Inl e"
      by simp
    from Cons.IH [OF this n1] obtain k msg where k: "k < length rest"
      and m: "createOutcome (createStack env (i + 1 + k)) = Inl msg"
      and lo: "2 * (failedDeployments ?acc1 + failuresFrom env (i + 1) k) \<le> n"
      and hi: "n < 2 * (failedDeployments ?acc1 + failuresFrom env (i + 1) k + 1)"
      and ee: "e = LambdaError 500 ''DEPLOYMENT_BATCH_FAILED''
             (BatchCounts (successfulDeployments ?acc1 + (k - failuresFrom env (i + 1) k))
                (failedDeployments ?acc1 + failuresFrom env (i + 1) k + 1) n msg)"
      and cs: "calls (snd (deployLoop env p t now n (i + 1) rest ?acc1 ?w1)) =
         calls ?w1 @ map (\<lambda>j. CreateStackCommand (stackNameOf p (rest ! j) t (i + 1 + j)))
                     [0..<Suc k]"
      and fr: "\<forall>g. g \<notin> set (take (Suc k) rest) \<longrightarrow>
           getStackRecord g (table (snd (deployLoop env p t now n (i + 1) rest ?acc1 ?w1)))
             = getStackRecord g (table ?w1)"
      by blast
    have f: "failedDeployments ?acc1 + failuresFrom env (i + 1) k
               = failedDeployments acc + failuresFrom env i (Suc k)"
      by (simp add: deployOne_counters failuresFrom_Suc)
    have s: "successfulDeployments ?acc1 + (k - failuresFrom env (i + 1) k)
               = successfulDeployments acc + (Suc k - failuresFrom env i (Suc k))"
      using failuresFrom_le [of env "i + 1" k]
      by (simp add: deployOne_counters failuresFrom_Suc)
    have c': "calls (snd (deployLoop env p t now n i (c # rest) acc w)) =
         calls w @ map (\<lambda>j. CreateStackCommand (stackNameOf p ((c # rest) ! j) t (i + j)))
                     [0..<Suc (Suc k)]"
      unfolding l cs cw1
      by (subst (2) map_upt_Suc) simp
    have fr': "\<forall>g. g \<notin> set (take (Suc (Suc k)) (c # rest)) \<longrightarrow>
           getStackRecord g (table (snd (deployLoop env p t now n i (c # rest) acc w)))
             = getStackRecord g (table w)"
      unfolding l using fr by (simp add: deployOne_other)
    from k m lo hi ee c' fr' show ?thesis
      unfolding f s
      by (intro exI [of _ "Suc k"] exI [of _ msg]) simp
  qed
qed

lemma deployLoop_calls:
  assumes "fst (deployLoop env p t now n i codes acc w) = Inr acc'"
  shows "calls (snd (deployLoop env p t now n i codes acc w)) =
           calls w @ map (\<lambda>j. CreateStackCommand (stackNameOf p (codes ! j) t (i + j)))
                       [0..<length codes]"
  using assms
proof (induction codes arbitrary: i acc w)
  case Nil
  then show ?case by simp
next
  case (Cons c rest)
  let ?d = "deployOne env p t now n i c acc w"
  let ?acc1 = "fst (snd ?d)" and ?w1 = "snd (snd ?d)"
  from Cons.prems have None: "fst ?d = None"
    by (cases "fst ?d") (simp_all add: deployLoop_Cons del: deployLoop.simps)
  then have l: "deployLoop env p t now n i (c # rest) acc w
               = deployLoop env p t now n (i + 1) rest ?acc1 ?w1"
    by (simp add: deployLoop_Cons del: deployLoop.simps)
  with Cons.prems have "fst (deployLoop env p t now n (i + 1) rest ?acc1 ?w1) = Inr acc'"
    by simp
  from Cons.IH [OF this] show ?case
    unfolding l
    by (subst map_upt_Suc [of _ "length rest", folded length_Cons [of c rest]])
      (simp add: deployOne_world)
qed
lemma deployStacks_loop:
  assumes "validateStackCount config count = None"
    and "validateTemplateUrl (urlProtocol env) (templateUrl config) = None"
    and "assignAccessCodes (nat count) sel (table w) = Inr assigned"
  shows "deployStacks env config ts now count sel w =
     (case deployLoop env (stackPrefixOf config) ts now (nat count) 0 assigned
             \<lparr> stacksSoFar = [], successfulDeployments = 0, failedDeployments = 0 \<rparr> w of
        (Inl e, w1) \<Rightarrow> (Inl e, w1)
      | (Inr acc, w1) \<Rightarrow>
          (Inr \<lparr> deployedStacks = stacksSoFar acc, assignedAccessCodes = assigned \<rparr>,
           if successfulDeployments acc > 0
           then manageRuleBasedOnStackCount (ruleOracle env) w1 else w1))"
  using assms by (simp add: deployStacks_def stackPrefixOf_def Let_def)

lemma calls_manageRuleBasedOnStackCount:
  "\<exists>rest. calls (manageRuleBasedOnStackCount e w) = calls w @ rest
     \<and> set rest \<subseteq> {DescribeRuleCommand, EnableRuleCommand, DisableRuleCommand}"
  by (simp add: manageRuleBasedOnStackCount_def getCurrentRuleState_def enableSyncRule_def
      disableSyncRule_def Let_def)

lemma half_unique: "2 * a \<le> (b::nat) \<Longrightarrow> b < 2 * (a + 1) \<Longrightarrow> a = b div 2"
  by presburger

lemma nth_notin_take:
  assumes "distinct xs" and "k < j" and "j < length xs"
  shows "xs ! j \<notin> set (take (Suc k) xs)"
proof
  assume "xs ! j \<in> set (take (Suc k) xs)"
  then obtain m where m: "m < length (take (Suc k) xs)" "take (Suc k) xs ! m = xs ! j"
    by (auto simp: in_set_conv_nth)
  then have "m < Suc k" "m < length xs" "xs ! m = xs ! j" by simp_all
  with assms have "m = j" by (simp add: nth_eq_iff_index_eq)
  with \<open>m < Suc k\<close> assms(2) show False by simp
qed

lemma applyUpdates_resetUpdates:
  "applyUpdates resetUpdates now r =
     r\<lparr> stackArn := None, stackName := None, stackId := None, status := AVAILABLE,
        createdAt := None, updatedAt := now \<rparr>"
  by (simp add: applyUpdates_def resetUpdates_def noUpdates_def applyField_def)

lemma assigned_available:
  assumes "assignAccessCodes n sel tbl = Inr assigned" and "distinct (map guid tbl)"
    and "j < n"
  shows "\<exists>before. getStackRecord (assigned ! j) tbl = Some before \<and> status before = AVAILABLE"
proof -
  from assignAccessCodes_result(1,2) [OF assms(1)] assms(3)
  have "assigned ! j \<in> set (getAvailableAccessCodes tbl)" by auto
  then obtain r where r: "r \<in> set tbl" "guid r = assigned ! j" "status r = AVAILABLE"
    by (auto simp: getAvailableAccessCodes_def getAllStackRecords_def)
  from getStackRecord_distinct [OF assms(2) r(1)] r(2,3) show ?thesis by auto
qed

lemma deployStacks_rounds:
  assumes vc: "validateStackCount config count = None"
    and vu: "validateTemplateUrl (urlProtocol env) (templateUrl config) = None"
    and asg: "assignAccessCodes (nat count) sel (table w) = Inr assigned"
    and di: "distinct (map guid (table w))"
  shows "\<forall>e. fst (deployStacks env config ts now count sel w) = Inl e \<longrightarrow>
           (\<exists>k msg. k < nat count \<and> createOutcome (createStack env k) = Inl msg
              \<and> failuresBefore env k = nat count div 2
              \<and> e = LambdaError 500 ''DEPLOYMENT_BATCH_FAILED''
                      (BatchCounts (k - nat count div 2) (nat count div 2 + 1) (nat count) msg)
              \<and> calls (snd (deployStacks env config ts now count sel w)) =
                  calls w @ map (\<lambda>j. CreateStackCommand
                                       (stackNameOf (stackPrefixOf config) (assigned ! j) ts j))
                              [0..<k + 1]
              \<and> (\<forall>j. k < j \<and> j < nat count \<longrightarrow>
                    getStackRecord (assigned ! j)
                        (table (snd (deployStacks env config ts now count sel w)))
                      = getStackRecord (assigned ! j) (table w))
              \<and> syncRule (snd (deployStacks env config ts now count sel w)) = syncRule w)"
    and "\<forall>resp. fst (deployStacks env config ts now count sel w) = Inr resp \<longrightarrow>
           (\<exists>rest. calls (snd (deployStacks env config ts now count sel w)) =
                  calls w @ map (\<lambda>j. CreateStackCommand
                                       (stackNameOf (stackPrefixOf config) (assigned ! j) ts j))
                              [0..<nat count] @ rest
              \<and> set rest \<subseteq> {DescribeRuleCommand, EnableRuleCommand, DisableRuleCommand})"
    and "\<forall>j < nat count. \<exists>before.
           getStackRecord (assigned ! j) (table w) = Some before \<and> status before = AVAILABLE
           \<and> getStackRecord (assigned ! j)
                 (table (snd (deployStacks env config ts now count sel w))) =
               Some (if nat count < 2 * failuresBefore env j then before
                     else case createOutcome (createStack env j) of
                            Inl msg \<Rightarrow>
                              if resetThrows env j then before
                              else before\<lparr> stackArn := None, stackName := None,
                                     stackId := None, status := AVAILABLE, createdAt := None,
                                     updatedAt := now \<rparr>
                          | Inr sid \<Rightarrow>
                              if putThrows env j then before
                              else \<lparr> guid = assigned ! j, stackArn = Some sid,
                                     stackName = Some (stackNameOf (stackPrefixOf config)
                                                         (assigned ! j) ts j),
                                     stackId = Some sid, status = CREATE_IN_PROGRESS,
                                     createdAt = Some now, updatedAt = now, outputs = None,
                                     lastSyncAt = None, syncError = None \<rparr>)"
proof -
  let ?acc0 = "\<lparr> stacksSoFar = [], successfulDeployments = 0, failedDeployments = 0 \<rparr>"
  let ?D = "deployStacks env config ts now count sel w"
  let ?p = "stackPrefixOf config"
  let ?n = "nat count"
  let ?L = "deployLoop env ?p ts now ?n 0 assigned ?acc0 w"
  note D = deployStacks_loop [OF vc vu asg, of ts now]
  note res = assignAccessCodes_result [OF asg]
  have len: "length assigned = ?n" by (rule res(1))
  have dis: "distinct assigned" using res(3) di by simp
  have tbl: "table (snd ?D) = table (snd ?L)"
    unfolding D by (cases ?L; cases "fst ?L") (auto split: sum.splits)
  show "\<forall>e. fst ?D = Inl e \<longrightarrow>
           (\<exists>k msg. k < ?n \<and> createOutcome (createStack env k) = Inl msg
              \<and> failuresBefore env k = ?n div 2
              \<and> e = LambdaError 500 ''DEPLOYMENT_BATCH_FAILED''
                      (BatchCounts (k - ?n div 2) (?n div 2 + 1) ?n msg)
              \<and> calls (snd ?D) =
                  calls w @ map (\<lambda>j. CreateStackCommand (stackNameOf ?p (assigned ! j) ts j))
                              [0..<k + 1]
              \<and> (\<forall>j. k < j \<and> j < ?n \<longrightarrow>
                    getStackRecord (assigned ! j) (table (snd ?D))
                      = getStackRecord (assigned ! j) (table w))
              \<and> syncRule (snd ?D) = syncRule w)"
  proof (intro allI impI)
    fix e assume e: "fst ?D = Inl e"
    then have l: "fst ?L = Inl e" and w': "snd ?D = snd ?L"
      unfolding D by (cases ?L; cases "fst ?L"; auto split: sum.splits)+
    from deployLoop_abort_round [OF l] obtain k msg where k: "k < ?n"
      and m: "createOutcome (createStack env k) = Inl msg"
      and lo: "2 * failuresFrom env 0 k \<le> ?n"
      and hi: "?n < 2 * (failuresFrom env 0 k + 1)"
      and ee: "e = LambdaError 500 ''DEPLOYMENT_BATCH_FAILED''
             (BatchCounts (k - failuresFrom env 0 k) (failuresFrom env 0 k + 1) ?n msg)"
      and cs: "calls (snd ?L) =
         calls w @ map (\<lambda>j. CreateStackCommand (stackNameOf ?p (assigned ! j) ts (0 + j)))
                     [0..<Suc k]"
      and fr: "\<forall>g. g \<notin> set (take (Suc k) assigned) \<longrightarrow>
           getStackRecord g (table (snd ?L)) = getStackRecord g (table w)"
      by (auto simp: len)
    from lo hi have fb: "failuresBefore env k = ?n div 2"
      unfolding failuresFrom_failuresBefore by (rule half_unique)
    have later: "\<forall>j. k < j \<and> j < ?n \<longrightarrow>
        getStackRecord (assigned ! j) (table (snd ?D)) = getStackRecord (assigned ! j) (table w)"
      unfolding w' using fr nth_notin_take [OF dis] by (simp add: len)
    have rule: "syncRule (snd ?D) = syncRule w"
      unfolding w' by (rule deployLoop_syncRule)
    from cs have cs': "calls (snd ?D) =
        calls w @ map (\<lambda>j. CreateStackCommand (stackNameOf ?p (assigned ! j) ts j)) [0..<k + 1]"
      unfolding w' by simp
    from ee fb have ee': "e = LambdaError 500 ''DEPLOYMENT_BATCH_FAILED''
                      (BatchCounts (k - ?n div 2) (?n div 2 + 1) ?n msg)"
      by (simp add: failuresFrom_failuresBefore)
    from k m fb ee' cs' later rule
    show "\<exists>k msg. k < ?n \<and> createOutcome (createStack env k) = Inl msg
              \<and> failuresBefore env k = ?n div 2
              \<and> e = LambdaError 500 ''DEPLOYMENT_BATCH_FAILED''
                      (BatchCounts (k - ?n div 2) (?n div 2 + 1) ?n msg)
              \<and> calls (snd ?D) =
                  calls w @ map (\<lambda>j. CreateStackCommand (stackNameOf ?p (assigned ! j) ts j))
                              [0..<k + 1]
              \<and> (\<forall>j. k < j \<and> j < ?n \<longrightarrow>
                    getStackRecord (assigned ! j) (table (snd ?D))
                      = getStackRecord (assigned ! j) (table w))
              \<and> syncRule (snd ?D) = syncRule w"
      by blast
  qed
  show "\<forall>resp. fst ?D = Inr resp \<longrightarrow>
           (\<exists>rest. calls (snd ?D) =
                  calls w @ map (\<lambda>j. CreateStackCommand (stackNameOf ?p (assigned ! j) ts j))
                              [0..<?n] @ rest
              \<and> set rest \<subseteq> {DescribeRuleCommand, EnableRuleCommand, DisableRuleCommand})"
  proof (intro allI impI)
    fix resp assume r: "fst ?D = Inr resp"
    then obtain acc where l: "fst ?L = Inr acc"
      and w': "snd ?D = (if successfulDeployments acc > 0
                         then manageRuleBasedOnStackCount (ruleOracle env) (snd ?L)
                         else snd ?L)"
      unfolding D by (cases ?L; cases "fst ?L"; auto split: sum.splits)
    from deployLoop_calls [OF l] have cs: "calls (snd ?L) =
        calls w @ map (\<lambda>j. CreateStackCommand (stackNameOf ?p (assigned ! j) ts j)) [0..<?n]"
      by (simp add: len)
    show "\<exists>rest. calls (snd ?D) =
                  calls w @ map (\<lambda>j. CreateStackCommand (stackNameOf ?p (assigned ! j) ts j))
                              [0..<?n] @ rest
              \<and> set rest \<subseteq> {DescribeRuleCommand, EnableRuleCommand, DisableRuleCommand}"
    proof (cases "successfulDeployments acc > 0")
      case True
      from calls_manageRuleBasedOnStackCount [of "ruleOracle env" "snd ?L"]
      obtain rest where "calls (manageRuleBasedOnStackCount (ruleOracle env) (snd ?L))
          = calls (snd ?L) @ rest"
        "set rest \<subseteq> {DescribeRuleCommand, EnableRuleCommand, DisableRuleCommand}"
        by blast
      with True show ?thesis
        by (intro exI [of _ rest]) (simp add: w' cs)
    next
      case False
      then show ?thesis
        by (intro exI [of _ "[]"]) (simp add: w' cs)
    qed
  qed
  show "\<forall>j < ?n. \<exists>before.
           getStackRecord (assigned ! j) (table w) = Some before \<and> status before = AVAILABLE
           \<and> getStackRecord (assigned ! j) (table (snd ?D)) =
               Some (if ?n < 2 * failuresBefore env j then before
                     else case createOutcome (createStack env j) of
                            Inl msg \<Rightarrow>
                              if resetThrows env j then before
                              else before\<lparr> stackArn := None, stackName := None,
                                     stackId := None, status := AVAILABLE, createdAt := None,
                                     updatedAt := now \<rparr>
                          | Inr sid \<Rightarrow>
                              if putThrows env j then before
                              else \<lparr> guid = assigned ! j, stackArn = Some sid,
                                     stackName = Some (stackNameOf ?p (assigned ! j) ts j),
                                     stackId = Some sid, status = CREATE_IN_PROGRESS,
                                     createdAt = Some now, updatedAt = now, outputs = None,
                                     lastSyncAt = None, syncError = None \<rparr>)"
  proof (intro allI impI)
    fix j assume j: "j < ?n"
    from assigned_available [OF asg di j] obtain before
      where b: "getStackRecord (assigned ! j) (table w) = Some before"
        "status before = AVAILABLE"
      by blast
    from j have "j < length assigned" by (simp add: len)
    from deployLoop_record [OF _ dis this, of ?acc0 ?n env ?p ts now 0 w]
    have "getStackRecord (assigned ! j) (table (snd ?D)) =
        (if 2 * failuresBefore env j \<le> ?n
         then roundRecord env ?p ts now j (assigned ! j) (Some before)
         else Some before)"
      unfolding tbl by (simp add: failuresFrom_failuresBefore b)
    then have "getStackRecord (assigned ! j) (table (snd ?D)) =
               Some (if ?n < 2 * failuresBefore env j then before
                     else case createOutcome (createStack env j) of
                            Inl msg \<Rightarrow>
                              if resetThrows env j then before
                              else before\<lparr> stackArn := None, stackName := None,
                                     stackId := None, status := AVAILABLE, createdAt := None,
                                     updatedAt := now \<rparr>
                          | Inr sid \<Rightarrow>
                              if putThrows env j then before
                              else \<lparr> guid = assigned ! j, stackArn = Some sid,
                                     stackName = Some (stackNameOf ?p (assigned ! j) ts j),
                                     stackId = Some sid, status = CREATE_IN_PROGRESS,
                                     createdAt = Some now, updatedAt = now, outputs = None,
                                     lastSyncAt = None, syncError = None \<rparr>)"
      by (simp add: roundRecord_def applyUpdates_resetUpdates split: sum.splits)
    with b show "\<exists>before.
           getStackRecord (assigned ! j) (table w) = Some before \<and> status before = AVAILABLE
           \<and> getStackRecord (assigned ! j) (table (snd ?D)) =
               Some (if ?n < 2 * failuresBefore env j then before
                     else case createOutcome (createStack env j) of
                            Inl msg \<Rightarrow>
                              if resetThrows env j then before
                              else before\<lparr> stackArn := None, stackName := None,
                                     stackId := None, status := AVAILABLE, createdAt := None,
                                     updatedAt := now \<rparr>
                          | Inr sid \<Rightarrow>
                              if putThrows env j then before
                              else \<lparr> guid = assigned ! j, stackArn = Some sid,
                                     stackName = Some (stackNameOf ?p (assigned ! j) ts j),
                                     stackId = Some sid, status = CREATE_IN_PROGRESS,
                                     createdAt = Some now, updatedAt = now, outputs = None,
                                     lastSyncAt = None, syncError = None \<rparr>)"
      by blast
  qed
qed
text \<open>
  C2. In a deployment that passes its validations, on a table with one record for each
  Access Code: the batch is aborted with \<^verbatim>\<open>DEPLOYMENT_BATCH_FAILED\<close> exactly when the
  failed creations among the \<open>stackCount\<close> rounds are more than half of \<open>stackCount\<close>. It
  is then aborted in the round \<open>k\<close> of the first failure that makes them more than half
  (before it, \<open>stackCount div 2\<close> creations have failed): the error carries the counts of
  the creations that succeeded and failed up to that round, CreateStack has been sent for
  the rounds up to \<open>k\<close> and for no other, the records of the codes of the later rounds
  are as they were, and the rule is not touched. Otherwise the response has one outcome
  for each assigned code, in order, \<open>CREATE_FAILED\<close> where the creation failed and
  \<open>CREATE_IN_PROGRESS\<close> where it did not, and CreateStack has been sent for every round.
  The record of the code of a round that was run is, after a failed creation, the record
  as it was with the status \<open>AVAILABLE\<close>, without the fields of the stack and with a new
  \<^verbatim>\<open>updatedAt\<close> (or as it was, when that write throws), and after a creation the record
  of the new stack (or as it was, when that write throws). In both cases the record of
  every code whose creation failed is \<open>AVAILABLE\<close> afterwards. With ten codes, of which
  the creations 6 to 10 fail, there are five outcomes of each kind.
\<close>

theorem partial_failure_containment:
  assumes "validateStackCount config count = None"
    and "validateTemplateUrl (urlProtocol env) (templateUrl config) = None"
    and "assignAccessCodes (nat count) sel (table w) = Inr assigned"
    and "distinct (map guid (table w))"
  shows "((\<exists>e. fst (deployStacks env config ts now count sel w) = Inl e)
            \<longleftrightarrow> 2 * failuresBefore env (nat count) > nat count)
     \<and> (\<forall>e. fst (deployStacks env config ts now count sel w) = Inl e \<longrightarrow>
           (\<exists>k msg. k < nat count \<and> createOutcome (createStack env k) = Inl msg
              \<and> failuresBefore env k = nat count div 2
              \<and> e = LambdaError 500 ''DEPLOYMENT_BATCH_FAILED''
                      (BatchCounts (k - nat count div 2) (nat count div 2 + 1) (nat count) msg)
              \<and> calls (snd (deployStacks env config ts now count sel w)) =
                  calls w @ map (\<lambda>j. CreateStackCommand
                                       (stackNameOf (stackPrefixOf config) (assigned ! j) ts j))
                              [0..<k + 1]
              \<and> (\<forall>j. k < j \<and> j < nat count \<longrightarrow>
                    getStackRecord (assigned ! j)
                        (table (snd (deployStacks env config ts now count sel w)))
                      = getStackRecord (assigned ! j) (table w))
              \<and> syncRule (snd (deployStacks env config ts now count sel w)) = syncRule w))
     \<and> (\<forall>resp. fst (deployStacks env config ts now count sel w) = Inr resp \<longrightarrow>
           assignedAccessCodes resp = assigned
           \<and> map p_uniqueId (deployedStacks resp) = assigned
           \<and> map p_status (deployedStacks resp) =
               map (\<lambda>j. if createFails env j then CREATE_FAILED else CREATE_IN_PROGRESS)
                 [0..<nat count]
           \<and> (\<exists>rest. calls (snd (deployStacks env config ts now count sel w)) =
                  calls w @ map (\<lambda>j. CreateStackCommand
                                       (stackNameOf (stackPrefixOf config) (assigned ! j) ts j))
                              [0..<nat count] @ rest
                \<and> set rest \<subseteq> {DescribeRuleCommand, EnableRuleCommand, DisableRuleCommand}))
     \<and> (\<forall>j < nat count. \<exists>before.
           getStackRecord (assigned ! j) (table w) = Some before \<and> status before = AVAILABLE
           \<and> getStackRecord (assigned ! j)
                 (table (snd (deployStacks env config ts now count sel w))) =
               Some (if nat count < 2 * failuresBefore env j then before
                     else case createOutcome (createStack env j) of
                            Inl msg \<Rightarrow>
                              if resetThrows env j then before
                              else before\<lparr> stackArn := None, stackName := None,
                                     stackId := None, status := AVAILABLE, createdAt := None,
                                     updatedAt := now \<rparr>
                          | Inr sid \<Rightarrow>
                              if putThrows env j then before
                              else \<lparr> guid = assigned ! j, stackArn = Some sid,
                                     stackName = Some (stackNameOf (stackPrefixOf config)
                                                         (assigned ! j) ts j),
                                     stackId = Some sid, status = CREATE_IN_PROGRESS,
                                     createdAt = Some now, updatedAt = now, outputs = None,
                                     lastSyncAt = None, syncError = None \<rparr>))
     \<and> (\<forall>j < nat count. createFails env j \<longrightarrow>
           assigned ! j \<in> set (map guid (table (snd (deployStacks env config ts now count sel w))))
           \<and> (\<forall>r \<in> set (table (snd (deployStacks env config ts now count sel w))).
                 guid r = assigned ! j \<longrightarrow> status r = AVAILABLE))
     \<and> (nat count = 10 \<and> (\<forall>j < 10. createFails env j = (5 \<le> j)) \<longrightarrow>
           (\<exists>resp. fst (deployStacks env config ts now count sel w) = Inr resp
              \<and> length (filter (\<lambda>d. p_status d = CREATE_IN_PROGRESS) (deployedStacks resp)) = 5
              \<and> length (filter (\<lambda>d. p_status d = CREATE_FAILED) (deployedStacks resp)) = 5))"
proof -
  let ?D = "deployStacks env config ts now count sel w"
  note c = deployStacks_contained [OF assms, of ts now]
  note r = deployStacks_rounds [OF assms, of ts now]
  have ten: "\<exists>resp. fst ?D = Inr resp
      \<and> length (filter (\<lambda>d. p_status d = CREATE_IN_PROGRESS) (deployedStacks resp)) = 5
      \<and> length (filter (\<lambda>d. p_status d = CREATE_FAILED) (deployedStacks resp)) = 5"
    if n: "nat count = 10" and f: "\<forall>j < 10. createFails env j = (5 \<le> j)"
  proof -
    have m: "map (\<lambda>j. if createFails env j then CREATE_FAILED else CREATE_IN_PROGRESS) [0..<10]
               = map (\<lambda>j. if 5 \<le> j then CREATE_FAILED else CREATE_IN_PROGRESS) [0..<10]"
      using f by (intro map_cong) auto
    have "filter (createFails env) [0..<10] = filter (\<lambda>j. 5 \<le> j) [0..<10]"
      using f by (intro filter_cong) auto
    then have "failuresBefore env 10 = 5"
      by (simp add: failuresBefore_def upt_ten)
    with c(1) n have "\<not> (\<exists>e. fst ?D = Inl e)" by simp
    then obtain resp where r: "fst ?D = Inr resp"
      by (cases "fst ?D") auto
    with c(3) n have "map p_status (deployedStacks resp) =
        map (\<lambda>j. if createFails env j then CREATE_FAILED else CREATE_IN_PROGRESS) [0..<10]"
      by simp
    then have s: "map p_status (deployedStacks resp) =
        [CREATE_IN_PROGRESS, CREATE_IN_PROGRESS, CREATE_IN_PROGRESS, CREATE_IN_PROGRESS,
         CREATE_IN_PROGRESS, CREATE_FAILED, CREATE_FAILED, CREATE_FAILED, CREATE_FAILED,
         CREATE_FAILED]"
      unfolding m by (simp add: upt_ten)
    have "length (filter (\<lambda>d. p_status d = x) (deployedStacks resp))
            = length (filter (\<lambda>s. s = x) (map p_status (deployedStacks resp)))" for x
      by (simp add: filter_map comp_def)
    with r show ?thesis
      unfolding s by simp
  qed
  from c(3) r(2) have resp: "\<forall>resp. fst ?D = Inr resp \<longrightarrow>
           assignedAccessCodes resp = assigned
           \<and> map p_uniqueId (deployedStacks resp) = assigned
           \<and> map p_status (deployedStacks resp) =
               map (\<lambda>j. if createFails env j then CREATE_FAILED else CREATE_IN_PROGRESS)
                 [0..<nat count]
           \<and> (\<exists>rest. calls (snd ?D) =
                  calls w @ map (\<lambda>j. CreateStackCommand
                                       (stackNameOf (stackPrefixOf config) (assigned ! j) ts j))
                              [0..<nat count] @ rest
                \<and> set rest \<subseteq> {DescribeRuleCommand, EnableRuleCommand, DisableRuleCommand})"
    by blast
  from ten have ten': "nat count = 10 \<and> (\<forall>j < 10. createFails env j = (5 \<le> j)) \<longrightarrow>
           (\<exists>resp. fst ?D = Inr resp
              \<and> length (filter (\<lambda>d. p_status d = CREATE_IN_PROGRESS) (deployedStacks resp)) = 5
              \<and> length (filter (\<lambda>d. p_status d = CREATE_FAILED) (deployedStacks resp)) = 5)"
    by blast
  show ?thesis
    by (intro conjI) (rule c(1) r(1) resp r(3) c(4) ten')+
qed

lemma failuresBefore_noneCreated: "failuresBefore noneCreated k = k"
  by (simp add: failuresBefore_def createFails_def noneCreated_def createOutcome_def)

text \<open>
  Ten codes of which the creations 6 to 10 fail, and three codes of which every creation
  fails: the batch is aborted in the second round.
\<close>

theorem partial_failure_containment_witness:
  "validateStackCount plainConfig 10 = None
   \<and> validateTemplateUrl (urlProtocol lastFiveFail) (templateUrl plainConfig) = None
   \<and> assignAccessCodes (nat 10) None (table (worldOf (map availableRecord tenCodes)))
       = Inr tenCodes
   \<and> distinct (map guid (table (worldOf (map availableRecord tenCodes))))
   \<and> (\<exists>resp. fst (deployStacks lastFiveFail plainConfig 1700000000000 ''t1'' 10 None
                     (worldOf (map availableRecord tenCodes))) = Inr resp
        \<and> map p_uniqueId (deployedStacks resp) = tenCodes
        \<and> length (filter (\<lambda>d. p_status d = CREATE_IN_PROGRESS) (deployedStacks resp)) = 5
        \<and> length (filter (\<lambda>d. p_status d = CREATE_FAILED) (deployedStacks resp)) = 5)
   \<and> list_all (\<lambda>r. status r = AVAILABLE)
        (filter (\<lambda>r. guid r \<in> set (drop 5 tenCodes))
           (table (snd (deployStacks lastFiveFail plainConfig 1700000000000 ''t1'' 10 None
                          (worldOf (map availableRecord tenCodes))))))
   \<and> validateStackCount plainConfig 3 = None
   \<and> validateTemplateUrl (urlProtocol noneCreated) (templateUrl plainConfig) = None
   \<and> assignAccessCodes (nat 3) None
        (table (worldOf [availableRecord codeA, availableRecord codeB, availableRecord codeC]))
       = Inr [codeA, codeB, codeC]
   \<and> distinct (map guid (table (worldOf [availableRecord codeA, availableRecord codeB, availableRecord codeC])))
   \<and> fst (deployStacks noneCreated plainConfig 7 ''t1'' 3 None
            (worldOf [availableRecord codeA, availableRecord codeB, availableRecord codeC]))
       = Inl (LambdaError 500 ''DEPLOYMENT_BATCH_FAILED'' (BatchCounts 0 2 3 ''limit''))
   \<and> calls (snd (deployStacks noneCreated plainConfig 7 ''t1'' 3 None
                   (worldOf [availableRecord codeA, availableRecord codeB, availableRecord codeC])))
       = [CreateStackCommand (stackNameOf ''deployment-stack'' codeA 7 0),
          CreateStackCommand (stackNameOf ''deployment-stack'' codeB 7 1)]
   \<and> getStackRecord codeA (table (snd (deployStacks noneCreated plainConfig 7 ''t1'' 3 None
                   (worldOf [availableRecord codeA, availableRecord codeB, availableRecord codeC]))))
       = Some ((availableRecord codeA)\<lparr> updatedAt := ''t1'' \<rparr>)
   \<and> getStackRecord codeC (table (snd (deployStacks noneCreated plainConfig 7 ''t1'' 3 None
                   (worldOf [availableRecord codeA, availableRecord codeB, availableRecord codeC]))))
       = Some (availableRecord codeC)"
proof -
  let ?w = "worldOf (map availableRecord tenCodes)"
  let ?D = "deployStacks lastFiveFail plainConfig 1700000000000 ''t1'' 10 None ?w"
  have g: "map guid (table ?w) = tenCodes"
    by (simp add: worldOf_def availableRecord_def comp_def)
  have a: "getAvailableAccessCodes (table ?w) = tenCodes"
    by (simp add: worldOf_def getAvailableAccessCodes_def getAllStackRecords_def
        availableRecord_def comp_def)
  have l: "length tenCodes = 10" and ne: "table ?w \<noteq> []"
    by (simp_all add: tenCodes_def worldOf_def)
  have h1: "validateStackCount plainConfig 10 = None"
    by (simp add: validateStackCount_def plainConfig_def)
  have h2: "validateTemplateUrl (urlProtocol lastFiveFail) (templateUrl plainConfig) = None"
    by (simp add: validateTemplateUrl_def plainConfig_def lastFiveFail_def)
  have h3: "assignAccessCodes (nat 10) None (table ?w) = Inr tenCodes"
    using ne by (simp add: assignAccessCodes_auto a l)
  have h4: "distinct (map guid (table ?w))"
    unfolding g by (simp add: tenCodes_def)
  note T = partial_failure_containment [OF h1 h2 h3 h4, of 1700000000000 "''t1''"]
  note T3 = T [THEN conjunct2, THEN conjunct2, THEN conjunct1]
  note T5 = T [THEN conjunct2, THEN conjunct2, THEN conjunct2, THEN conjunct2, THEN conjunct1]
  note T6 = T [THEN conjunct2, THEN conjunct2, THEN conjunct2, THEN conjunct2, THEN conjunct2]
  from T6 have "\<exists>resp. fst ?D = Inr resp
      \<and> length (filter (\<lambda>d. p_status d = CREATE_IN_PROGRESS) (deployedStacks resp)) = 5
      \<and> length (filter (\<lambda>d. p_status d = CREATE_FAILED) (deployedStacks resp)) = 5"
    by (simp add: lastFiveFail_fails)
  then obtain resp where r: "fst ?D = Inr resp"
    "length (filter (\<lambda>d. p_status d = CREATE_IN_PROGRESS) (deployedStacks resp)) = 5"
    "length (filter (\<lambda>d. p_status d = CREATE_FAILED) (deployedStacks resp)) = 5"
    by blast
  from T3 r(1) have u: "map p_uniqueId (deployedStacks resp) = tenCodes" by blast
  from T5 have av: "\<forall>r \<in> set (table (snd ?D)). guid r = tenCodes ! j \<longrightarrow> status r = AVAILABLE"
    if "j < 10" "5 \<le> j" for j
    using that by (simp add: lastFiveFail_fails)
  have "status r = AVAILABLE" if m: "r \<in> set (table (snd ?D))"
    and d: "guid r \<in> set (drop 5 tenCodes)" for r
  proof -
    from d obtain k where "k < length (drop 5 tenCodes)" "drop 5 tenCodes ! k = guid r"
      by (auto simp: in_set_conv_nth)
    then have "5 + k < 10" "tenCodes ! (5 + k) = guid r"
      by (simp_all add: l)
    with av [of "5 + k"] m show ?thesis by auto
  qed
  then have la: "list_all (\<lambda>r. status r = AVAILABLE)
        (filter (\<lambda>r. guid r \<in> set (drop 5 tenCodes)) (table (snd ?D)))"
    by (simp add: list_all_iff)
  from r u have ex: "\<exists>resp. fst ?D = Inr resp
        \<and> map p_uniqueId (deployedStacks resp) = tenCodes
        \<and> length (filter (\<lambda>d. p_status d = CREATE_IN_PROGRESS) (deployedStacks resp)) = 5
        \<and> length (filter (\<lambda>d. p_status d = CREATE_FAILED) (deployedStacks resp)) = 5"
    by blast
  let ?v = "worldOf [availableRecord codeA, availableRecord codeB, availableRecord codeC]"
  let ?E = "deployStacks noneCreated plainConfig 7 ''t1'' 3 None ?v"
  have tv: "table ?v = [availableRecord codeA, availableRecord codeB, availableRecord codeC]"
    and cv: "calls ?v = []"
    by (simp_all add: worldOf_def)
  have gv: "guid (availableRecord x) = x" "status (availableRecord x) = AVAILABLE" for x
    by (simp_all add: availableRecord_def)
  have k1: "validateStackCount plainConfig 3 = None"
    by (simp add: validateStackCount_def plainConfig_def)
  have k2: "validateTemplateUrl (urlProtocol noneCreated) (templateUrl plainConfig) = None"
    by (simp add: validateTemplateUrl_def plainConfig_def noneCreated_def)
  have k3: "assignAccessCodes (nat 3) None (table ?v) = Inr [codeA, codeB, codeC]"
    by (simp add: assignAccessCodes_auto tv getAvailableAccessCodes_def getAllStackRecords_def
        gv)
  have k4: "distinct (map guid (table ?v))"
    using codes_distinct by (simp add: tv gv)
  have sp: "stackPrefixOf plainConfig = ''deployment-stack''"
    by (simp add: stackPrefixOf_def plainConfig_def)
  have co: "createOutcome (createStack noneCreated j) = Inl ''limit''" for j
    by (simp add: noneCreated_def createOutcome_def)
  have rt: "\<not> resetThrows noneCreated j" for j
    by (simp add: noneCreated_def)
  note U = partial_failure_containment [OF k1 k2 k3 k4, of 7 "''t1''"]
  note U1 = U [THEN conjunct1]
  note U2 = U [THEN conjunct2, THEN conjunct1]
  note U4 = U [THEN conjunct2, THEN conjunct2, THEN conjunct2, THEN conjunct1]
  from U1 obtain e where e: "fst ?E = Inl e"
    by (auto simp: failuresBefore_noneCreated)
  from U2 [rule_format, OF e] obtain k msg where k: "k < nat 3"
    and m: "createOutcome (createStack noneCreated k) = Inl msg"
    and fb: "failuresBefore noneCreated k = nat 3 div 2"
    and ee: "e = LambdaError 500 ''DEPLOYMENT_BATCH_FAILED''
                  (BatchCounts (k - nat 3 div 2) (nat 3 div 2 + 1) (nat 3) msg)"
    and cs: "calls (snd ?E) =
        calls ?v @ map (\<lambda>j. CreateStackCommand
             (stackNameOf (stackPrefixOf plainConfig) ([codeA, codeB, codeC] ! j) 7 j))
           [0..<k + 1]"
    by blast
  from fb have k1': "k = 1" by (simp add: failuresBefore_noneCreated)
  from m have msg: "msg = ''limit''" by (simp add: co)
  from e ee have err: "fst ?E
       = Inl (LambdaError 500 ''DEPLOYMENT_BATCH_FAILED'' (BatchCounts 0 2 3 ''limit''))"
    by (simp add: k1' msg)
  have u2: "[0..<Suc (Suc 0)] = [0, Suc 0]" by (simp add: upt_rec)
  from cs have cl: "calls (snd ?E)
       = [CreateStackCommand (stackNameOf ''deployment-stack'' codeA 7 0),
          CreateStackCommand (stackNameOf ''deployment-stack'' codeB 7 1)]"
    by (simp add: k1' cv sp u2)
  have ga: "getStackRecord codeA (table ?v) = Some (availableRecord codeA)"
    "getStackRecord codeC (table ?v) = Some (availableRecord codeC)"
    using codes_distinct by (simp_all add: tv getStackRecord_def gv)
  have nn: "(0::nat) < nat 3" "(2::nat) < nat 3" by simp_all
  from U4 [rule_format, OF nn(1)] obtain b0
    where "getStackRecord codeA (table ?v) = Some b0"
      and "getStackRecord codeA (table (snd ?E)) =
             Some (if nat 3 < 2 * failuresBefore noneCreated 0 then b0
                   else case createOutcome (createStack noneCreated 0) of
                          Inl msg \<Rightarrow>
                            if resetThrows noneCreated 0 then b0
                            else b0\<lparr> stackArn := None, stackName := None,
                                   stackId := None, status := AVAILABLE, createdAt := None,
                                   updatedAt := ''t1'' \<rparr>
                        | Inr sid \<Rightarrow>
                            if putThrows noneCreated 0 then b0
                            else \<lparr> guid = [codeA, codeB, codeC] ! 0, stackArn = Some sid,
                                   stackName = Some (stackNameOf (stackPrefixOf plainConfig)
                                                       ([codeA, codeB, codeC] ! 0) 7 0),
                                   stackId = Some sid, status = CREATE_IN_PROGRESS,
                                   createdAt = Some ''t1'', updatedAt = ''t1'', outputs = None,
                                   lastSyncAt = None, syncError = None \<rparr>)"
    by auto
  then have "getStackRecord codeA (table (snd ?E)) =
      Some ((availableRecord codeA)\<lparr> stackArn := None, stackName := None, stackId := None,
        status := AVAILABLE, createdAt := None, updatedAt := ''t1'' \<rparr>)"
    by (simp add: ga co rt failuresBefore_noneCreated)
  then have ra: "getStackRecord codeA (table (snd ?E))
       = Some ((availableRecord codeA)\<lparr> updatedAt := ''t1'' \<rparr>)"
    by (simp add: availableRecord_def)
  from U4 [rule_format, OF nn(2)] obtain b2
    where "getStackRecord codeC (table ?v) = Some b2"
      and "getStackRecord codeC (table (snd ?E)) =
             Some (if nat 3 < 2 * failuresBefore noneCreated 2 then b2
                   else case createOutcome (createStack noneCreated 2) of
                          Inl msg \<Rightarrow>
                            if resetThrows noneCreated 2 then b2
                            else b2\<lparr> stackArn := None, stackName := None,
                                   stackId := None, status := AVAILABLE, createdAt := None,
                                   updatedAt := ''t1'' \<rparr>
                        | Inr sid \<Rightarrow>
                            if putThrows noneCreated 2 then b2
                            else \<lparr> guid = [codeA, codeB, codeC] ! 2, stackArn = Some sid,
                                   stackName = Some (stackNameOf (stackPrefixOf plainConfig)
                                                       ([codeA, codeB, codeC] ! 2) 7 2),
                                   stackId = Some sid, status = CREATE_IN_PROGRESS,
                                   createdAt = Some ''t1'', updatedAt = ''t1'', outputs = None,
                                   lastSyncAt = None, syncError = None \<rparr>)"
    by auto
  then have rc: "getStackRecord codeC (table (snd ?E)) = Some (availableRecord codeC)"
    by (simp add: ga failuresBefore_noneCreated)
  from h1 h2 h3 h4 ex la k1 k2 k3 k4 err cl ra rc show ?thesis
    by (intro conjI)
qed

section \<open>The rule after a pass\<close>

lemma sync_fold_rule:
  "syncRule (snd (foldl (syncOne env now) (res, w) recs)) = syncRule w
   \<and> (\<exists>arns. calls (snd (foldl (syncOne env now) (res, w) recs))
                = calls w @ map DescribeStacksCommand arns)"
proof (induction recs arbitrary: res w)
  case Nil
  show ?case by simp
next
  case (Cons r rest)
  let ?s = "syncOne env now (res, w) r"
  from Cons.IH [of "fst ?s" "snd ?s"]
  obtain arns where r: "syncRule (snd (foldl (syncOne env now) ?s rest)) = syncRule (snd ?s)"
    and c: "calls (snd (foldl (syncOne env now) ?s rest))
              = calls (snd ?s) @ map DescribeStacksCommand arns"
    by auto
  have r1: "syncRule (snd ?s) = syncRule w"
    by (simp add: syncOne_world)
  have "\<exists>first. calls (snd ?s) = calls w @ map DescribeStacksCommand first"
  proof (cases "stackArn r")
    case None
    then have "calls (snd ?s) = calls w @ map DescribeStacksCommand []"
      by (simp add: syncOne_world syncStackRecord_calls)
    then show ?thesis by blast
  next
    case (Some arn)
    then have "calls (snd ?s) = calls w @ map DescribeStacksCommand (if arn = [] then [] else [arn])"
      by (simp add: syncOne_world syncStackRecord_calls)
    then show ?thesis by blast
  qed
  then obtain first where c1: "calls (snd ?s) = calls w @ map DescribeStacksCommand first"
    by blast
  from c c1 have "calls (snd (foldl (syncOne env now) ?s rest))
      = calls w @ map DescribeStacksCommand (first @ arns)" by simp
  with r r1 show ?case
    by (simp del: map_append) blast
qed

lemma syncAllStacks_loop:
  obtains wl where "snd (syncAllStacks env now w) = afterSync env wl"
    and "syncRule wl = syncRule w"
    and "\<exists>arns. calls wl = calls w @ map DescribeStacksCommand arns"
proof -
  let ?recs = "getNonAvailableStackRecords (table w)"
  let ?res = "\<lparr> totalProcessed = length ?recs, successfulSyncs = 0, failedSyncs = 0,
                 errors = [] \<rparr>"
  let ?wl = "snd (foldl (syncOne env now) (?res, w) ?recs)"
  have "snd (syncAllStacks env now w) = afterSync env ?wl"
    by (simp add: syncAllStacks_def Let_def)
  with sync_fold_rule [of env now ?res w ?recs] that show thesis
    by blast
qed

lemma afterSync_remaining:
  "getNonAvailableStackRecords (table w) \<noteq> [] \<Longrightarrow> afterSync env w = w"
  by (simp add: afterSync_def validateAllStacksDeletionComplete_def)

lemma afterSync_none_remaining:
  "getNonAvailableStackRecords (table w) = [] \<Longrightarrow>
     afterSync env w = ensureRuleDisabled (syncRuleOracle env) w"
  by (simp add: afterSync_def validateAllStacksDeletionComplete_def)

lemma syncRule_ensureRuleDisabled:
  "syncRule (ensureRuleDisabled e w) =
     (if describeRuleThrows e \<or> disableRuleThrows e then syncRule w else DISABLED)"
  by (simp add: ensureRuleDisabled_def getCurrentRuleState_def disableSyncRule_def Let_def)

lemma calls_ensureRuleDisabled:
  "calls (ensureRuleDisabled e w) =
     calls w @ (if describeRuleThrows e \<or> syncRule w = DISABLED then [DescribeRuleCommand]
                else [DescribeRuleCommand, DisableRuleCommand])"
  by (simp add: ensureRuleDisabled_def getCurrentRuleState_def disableSyncRule_def Let_def)

lemma syncAllStacks_idle:
  "getNonAvailableStackRecords (table w) = [] \<Longrightarrow>
     snd (syncAllStacks env now w) = ensureRuleDisabled (syncRuleOracle env) w"
  by (simp add: syncAllStacks_def afterSync_none_remaining)

lemma syncStackRecord_oracle:
  "syncStackRecord (env\<lparr> syncRuleOracle := e \<rparr>) now r w = syncStackRecord env now r w"
  by (simp add: syncStackRecord_def writeSync_def recordSyncError_def Let_def
      split: option.splits sum.splits)

lemma syncOne_oracle: "syncOne (env\<lparr> syncRuleOracle := e \<rparr>) now = syncOne env now"
  by (intro ext) (simp add: syncOne_def syncStackRecord_oracle)

lemma syncAllStacks_oracle:
  "fst (syncAllStacks (env\<lparr> syncRuleOracle := e \<rparr>) now w) = fst (syncAllStacks env now w)"
  "table (snd (syncAllStacks (env\<lparr> syncRuleOracle := e \<rparr>) now w))
     = table (snd (syncAllStacks env now w))"
  by (simp_all add: syncAllStacks_def Let_def syncOne_oracle)

text \<open>
  Claim C7 (trigger disable policy). Let \<open>w'\<close> be the state after a pass from \<open>w\<close>.
  If no record of the table of \<open>w'\<close> is other than \<open>AVAILABLE\<close>, the pass ends with
  DescribeRule, followed by DisableRule unless DescribeRule throws or the rule was already
  \<open>DISABLED\<close>; the rule is \<open>DISABLED\<close> afterwards when neither command throws, and
  otherwise it is as before or \<open>DISABLED\<close>; and once the rule is \<open>DISABLED\<close>, a further
  pass sends DescribeRule only and changes nothing else. If some record of the table of
  \<open>w'\<close> is not \<open>AVAILABLE\<close>, the rule is as before and the pass has sent DescribeStacks
  commands only. The result of the pass and the table after it are the same whatever the
  commands of the rule do.
\<close>

theorem trigger_disable_policy:
  "(getNonAvailableStackRecords (table (snd (syncAllStacks env now w))) = [] \<longrightarrow>
      (\<not> describeRuleThrows (syncRuleOracle env) \<and> \<not> disableRuleThrows (syncRuleOracle env)
         \<longrightarrow> syncRule (snd (syncAllStacks env now w)) = DISABLED)
      \<and> (syncRule (snd (syncAllStacks env now w)) = syncRule w
           \<or> syncRule (snd (syncAllStacks env now w)) = DISABLED)
      \<and> (\<exists>arns. calls (snd (syncAllStacks env now w)) =
             calls w @ map DescribeStacksCommand arns
               @ (if describeRuleThrows (syncRuleOracle env) \<or> syncRule w = DISABLED
                  then [DescribeRuleCommand]
                  else [DescribeRuleCommand, DisableRuleCommand]))
      \<and> (syncRule (snd (syncAllStacks env now w)) = DISABLED \<longrightarrow>
            table (snd (syncAllStacks env2 now2 (snd (syncAllStacks env now w))))
              = table (snd (syncAllStacks env now w))
            \<and> syncRule (snd (syncAllStacks env2 now2 (snd (syncAllStacks env now w))))
                = DISABLED
            \<and> calls (snd (syncAllStacks env2 now2 (snd (syncAllStacks env now w))))
                = calls (snd (syncAllStacks env now w)) @ [DescribeRuleCommand]))
   \<and> (getNonAvailableStackRecords (table (snd (syncAllStacks env now w))) \<noteq> [] \<longrightarrow>
        syncRule (snd (syncAllStacks env now w)) = syncRule w
        \<and> (\<exists>arns. calls (snd (syncAllStacks env now w))
                     = calls w @ map DescribeStacksCommand arns))
   \<and> fst (syncAllStacks (env\<lparr> syncRuleOracle := e \<rparr>) now w) = fst (syncAllStacks env now w)
   \<and> table (snd (syncAllStacks (env\<lparr> syncRuleOracle := e \<rparr>) now w))
       = table (snd (syncAllStacks env now w))"
proof -
  let ?w' = "snd (syncAllStacks env now w)"
  let ?e = "syncRuleOracle env"
  obtain wl arns where a: "?w' = afterSync env wl" and r: "syncRule wl = syncRule w"
    and c: "calls wl = calls w @ map DescribeStacksCommand arns"
    using syncAllStacks_loop [of env now w] by metis
  from a have t: "table ?w' = table wl" by simp
  have some: "syncRule ?w' = syncRule w
        \<and> (\<exists>arns. calls ?w' = calls w @ map DescribeStacksCommand arns)"
    if "getNonAvailableStackRecords (table ?w') \<noteq> []"
  proof -
    from that t have "afterSync env wl = wl"
      by (simp add: afterSync_remaining)
    with a r c show ?thesis by auto
  qed
  have none: "(\<not> describeRuleThrows ?e \<and> \<not> disableRuleThrows ?e \<longrightarrow> syncRule ?w' = DISABLED)
      \<and> (syncRule ?w' = syncRule w \<or> syncRule ?w' = DISABLED)
      \<and> (\<exists>arns. calls ?w' =
             calls w @ map DescribeStacksCommand arns
               @ (if describeRuleThrows ?e \<or> syncRule w = DISABLED
                  then [DescribeRuleCommand]
                  else [DescribeRuleCommand, DisableRuleCommand]))
      \<and> (syncRule ?w' = DISABLED \<longrightarrow>
            table (snd (syncAllStacks env2 now2 ?w')) = table ?w'
            \<and> syncRule (snd (syncAllStacks env2 now2 ?w')) = DISABLED
            \<and> calls (snd (syncAllStacks env2 now2 ?w')) = calls ?w' @ [DescribeRuleCommand])"
    if n: "getNonAvailableStackRecords (table ?w') = []"
  proof -
    from n t have w': "?w' = ensureRuleDisabled ?e wl"
      using a by (simp add: afterSync_none_remaining)
    have 1: "\<not> describeRuleThrows ?e \<and> \<not> disableRuleThrows ?e \<longrightarrow> syncRule ?w' = DISABLED"
      unfolding w' by (simp add: syncRule_ensureRuleDisabled)
    have 2: "syncRule ?w' = syncRule w \<or> syncRule ?w' = DISABLED"
      unfolding w' by (simp add: syncRule_ensureRuleDisabled r)
    have "calls ?w' = calls w @ map DescribeStacksCommand arns
               @ (if describeRuleThrows ?e \<or> syncRule w = DISABLED
                  then [DescribeRuleCommand]
                  else [DescribeRuleCommand, DisableRuleCommand])"
      unfolding w' by (simp add: calls_ensureRuleDisabled r c)
    then have 3: "\<exists>arns. calls ?w' = calls w @ map DescribeStacksCommand arns
               @ (if describeRuleThrows ?e \<or> syncRule w = DISABLED
                  then [DescribeRuleCommand]
                  else [DescribeRuleCommand, DisableRuleCommand])"
      by blast
    have 4: "table (snd (syncAllStacks env2 now2 ?w')) = table ?w'
            \<and> syncRule (snd (syncAllStacks env2 now2 ?w')) = DISABLED
            \<and> calls (snd (syncAllStacks env2 now2 ?w')) = calls ?w' @ [DescribeRuleCommand]"
      if "syncRule ?w' = DISABLED"
      using that
      by (simp add: syncAllStacks_idle [OF n] syncRule_ensureRuleDisabled
          calls_ensureRuleDisabled)
    from 1 2 3 4 show ?thesis by blast
  qed
  from some none syncAllStacks_oracle [where env = env and e = e and now = now and w = w]
  show ?thesis
    by blast
qed
lemma linkedRecord_fields:
  "guid (linkedRecord c s) = c" "status (linkedRecord c s) = s"
  "stackArn (linkedRecord c s) = Some (''arn:'' @ c)"
  by (simp_all add: linkedRecord_def)

lemma syncedRecord_steady:
  "syncedRecord steadyEnv now ((linkedRecord codeA CREATE_COMPLETE)\<lparr> syncError := e \<rparr>) =
     (linkedRecord codeA CREATE_COMPLETE)\<lparr> syncError := e, lastSyncAt := Some now,
        updatedAt := now \<rparr>"
  by (simp add: syncedRecord_def syncWritten_def steadyEnv_def linkedRecord_def syncUpdates_def
      Let_def truthy_def convertCloudFormationOutputs_def applyUpdates_def noUpdates_def
      applyField_def)

lemma table_pass_gone:
  "table (snd (syncAllStacks goneEnv now (worldOf [linkedRecord codeA DELETE_IN_PROGRESS])))
     = [resetRecord now (linkedRecord codeA DELETE_IN_PROGRESS)]"
proof -
  have t: "table (worldOf [linkedRecord codeA DELETE_IN_PROGRESS])
             = [linkedRecord codeA DELETE_IN_PROGRESS]"
    by (simp add: worldOf_def)
  have d: "distinct (map guid (table (worldOf [linkedRecord codeA DELETE_IN_PROGRESS])))"
    by (simp add: t)
  have g: "reportsGone (describeStacks goneEnv (''arn:'' @ codeA))"
    by (simp add: goneEnv_def reportsGone_def stackDoesNotExist_def)
  have u: "syncUpdateThrows goneEnv c = None" for c
    by (simp add: goneEnv_def)
  have "syncedRecord goneEnv now (linkedRecord codeA DELETE_IN_PROGRESS)
          = resetRecord now (linkedRecord codeA DELETE_IN_PROGRESS)"
    by (rule syncedRecord_reset [OF _ _ g]) (simp_all add: linkedRecord_fields u)
  then show ?thesis
    by (simp add: syncAllStacks_table [OF d] t linkedRecord_fields)
qed

lemma table_pass_steady:
  "table (snd (syncAllStacks steadyEnv now
      (worldOf [(linkedRecord codeA CREATE_COMPLETE)\<lparr> syncError := e \<rparr>])))
     = [(linkedRecord codeA CREATE_COMPLETE)\<lparr> syncError := e, lastSyncAt := Some now,
          updatedAt := now \<rparr>]"
proof -
  have t: "table (worldOf [(linkedRecord codeA CREATE_COMPLETE)\<lparr> syncError := e \<rparr>])
             = [(linkedRecord codeA CREATE_COMPLETE)\<lparr> syncError := e \<rparr>]"
    by (simp add: worldOf_def)
  have d: "distinct (map guid
      (table (worldOf [(linkedRecord codeA CREATE_COMPLETE)\<lparr> syncError := e \<rparr>])))"
    by (simp add: t)
  show ?thesis
    by (simp add: syncAllStacks_table [OF d] t linkedRecord_fields syncedRecord_steady)
qed

text \<open>
  A pass after which no stack remains, followed by a second pass; and a pass after which
  the stack of \<open>codeA\<close> remains.
\<close>

theorem trigger_disable_policy_witness:
  "getNonAvailableStackRecords (table (snd (syncAllStacks goneEnv ''t1''
       (worldOf [linkedRecord codeA DELETE_IN_PROGRESS])))) = []
   \<and> \<not> describeRuleThrows (syncRuleOracle goneEnv)
   \<and> \<not> disableRuleThrows (syncRuleOracle goneEnv)
   \<and> syncRule (worldOf [linkedRecord codeA DELETE_IN_PROGRESS]) = ENABLED
   \<and> syncRule (snd (syncAllStacks goneEnv ''t1''
         (worldOf [linkedRecord codeA DELETE_IN_PROGRESS]))) = DISABLED
   \<and> calls (snd (syncAllStacks goneEnv ''t2'' (snd (syncAllStacks goneEnv ''t1''
         (worldOf [linkedRecord codeA DELETE_IN_PROGRESS])))))
       = calls (snd (syncAllStacks goneEnv ''t1''
           (worldOf [linkedRecord codeA DELETE_IN_PROGRESS]))) @ [DescribeRuleCommand]
   \<and> getNonAvailableStackRecords (table (snd (syncAllStacks steadyEnv ''t1''
         (worldOf [(linkedRecord codeA CREATE_COMPLETE)\<lparr> syncError := None \<rparr>])))) \<noteq> []
   \<and> syncRule (snd (syncAllStacks steadyEnv ''t1''
         (worldOf [(linkedRecord codeA CREATE_COMPLETE)\<lparr> syncError := None \<rparr>]))) = ENABLED"
proof -
  let ?w1 = "worldOf [linkedRecord codeA DELETE_IN_PROGRESS]"
  let ?w2 = "worldOf [(linkedRecord codeA CREATE_COMPLETE)\<lparr> syncError := None \<rparr>]"
  have n1: "getNonAvailableStackRecords (table (snd (syncAllStacks goneEnv ''t1'' ?w1))) = []"
    by (simp add: table_pass_gone getNonAvailableStackRecords_def getAllStackRecords_def
        resetRecord_def)
  have q: "\<not> describeRuleThrows (syncRuleOracle goneEnv)"
    "\<not> disableRuleThrows (syncRuleOracle goneEnv)"
    by (simp_all add: goneEnv_def quietRule_def)
  have r: "syncRule ?w1 = ENABLED" "syncRule ?w2 = ENABLED"
    by (simp_all add: worldOf_def)
  note T1 = trigger_disable_policy [where env = goneEnv and now = "''t1''" and w = ?w1
      and ?env2.0 = goneEnv and ?now2.0 = "''t2''" and e = quietRule]
  from T1 n1 q have s1: "syncRule (snd (syncAllStacks goneEnv ''t1'' ?w1)) = DISABLED"
    by blast
  from T1 n1 s1 have c1: "calls (snd (syncAllStacks goneEnv ''t2''
        (snd (syncAllStacks goneEnv ''t1'' ?w1))))
       = calls (snd (syncAllStacks goneEnv ''t1'' ?w1)) @ [DescribeRuleCommand]"
    by blast
  have n2: "getNonAvailableStackRecords (table (snd (syncAllStacks steadyEnv ''t1'' ?w2))) \<noteq> []"
    by (simp add: table_pass_steady getNonAvailableStackRecords_def getAllStackRecords_def
        linkedRecord_fields)
  note T2 = trigger_disable_policy [where env = steadyEnv and now = "''t1''" and w = ?w2
      and ?env2.0 = goneEnv and ?now2.0 = "''t2''" and e = quietRule]
  from T2 n2 r have s2: "syncRule (snd (syncAllStacks steadyEnv ''t1'' ?w2)) = ENABLED"
    by metis
  from n1 q r(1) s1 c1 n2 s2 show ?thesis
    by blast
qed

section \<open>Two passes in a row\<close>














end
